theory Spec2Isabelle
  imports Main "HOL-Library.Word" "HOL-Library.Sublist" "HOL-Library.Signed_Division"
begin

section \<open>The handheld console firmware: host engine\<close>

text \<open>
  The development embeds the host engine of the game console sketch (the revision with
  18 games, pause, mute and the game-over timeout): the tone queue, the button
  debouncer, the frame index mapping and the session state machine driven by
  \<open>loop()\<close>. Unsigned C integers are words of their width; array indices are
  computed in \<open>int\<close> as C's integer promotion does and then narrowed.
\<close>

type_synonym u8 = "8 word"
type_synonym u16 = "16 word"
type_synonym u32 = "32 word"

subsection \<open>Sound system\<close>

text \<open>\<open>struct ToneEvent { uint16_t freq; uint16_t duration; }\<close>\<close>

record ToneEvent =
  freq :: u16
  duration :: u16

definition TONE_QUEUE_SIZE :: nat where
  "TONE_QUEUE_SIZE = 24"

text \<open>
  The globals of the sound system. The last two fields are the buzzer hardware as the
  code drives it: \<open>buzzer\<close> is the frequency the pin is playing (\<open>None\<close> after
  \<open>noTone(BUZZER)\<close>), and \<open>tonesStarted\<close> is the trace of the events for which
  \<open>tone(BUZZER, event.freq)\<close> was called, oldest first.
\<close>

record Sound =
  toneQueue :: "ToneEvent list"
  toneHead :: u8
  toneTail :: u8
  toneActive :: bool
  toneEndTime :: u32
  soundMuted :: bool
  buzzer :: "u16 option"
  tonesStarted :: "ToneEvent list"

text \<open>The state at boot: an empty queue of 24 zero-initialised slots, nothing playing.\<close>

definition bootSound :: Sound where
  "bootSound = \<lparr> toneQueue = replicate TONE_QUEUE_SIZE \<lparr>freq = 0, duration = 0\<rparr>,
     toneHead = 0, toneTail = 0, toneActive = False, toneEndTime = 0,
     soundMuted = False, buzzer = None, tonesStarted = [] \<rparr>"

text \<open>\<open>(i + 1) % TONE_QUEUE_SIZE\<close>, computed in \<open>int\<close> and narrowed to \<open>uint8_t\<close>.\<close>

definition nextIndex :: "u8 \<Rightarrow> u8" where
  "nextIndex i = of_nat ((unat i + 1) mod TONE_QUEUE_SIZE)"

definition setSoundMuted :: "bool \<Rightarrow> Sound \<Rightarrow> Sound" where
  "setSoundMuted muted s =
     (let s1 = s\<lparr>soundMuted := muted\<rparr> in
      if soundMuted s1
      then s1\<lparr>buzzer := None, toneActive := False, toneHead := 0, toneTail := 0\<rparr>
      else s1)"

definition enqueueTone :: "u16 \<Rightarrow> u16 \<Rightarrow> Sound \<Rightarrow> Sound" where
  "enqueueTone f d s =
     (if soundMuted s then s
      else let nextTail = nextIndex (toneTail s) in
        if nextTail = toneHead s then s
        else s\<lparr>toneQueue := (toneQueue s)[unat (toneTail s) := \<lparr>freq = f, duration = d\<rparr>],
               toneTail := nextTail\<rparr>)"

definition beepButton :: "Sound \<Rightarrow> Sound" where
  "beepButton = enqueueTone 1200 26"

definition beepStart :: "Sound \<Rightarrow> Sound" where
  "beepStart s = enqueueTone 1200 65 (enqueueTone 850 45 (enqueueTone 500 45 s))"

definition beepLose :: "Sound \<Rightarrow> Sound" where
  "beepLose s = enqueueTone 430 90 (enqueueTone 700 70 (enqueueTone 1000 60 s))"

definition beepWin :: "Sound \<Rightarrow> Sound" where
  "beepWin s = enqueueTone 1400 80 (enqueueTone 1050 50 (enqueueTone 800 50 s))"

text \<open>
  \<open>updateSound\<close> is three statements: the muted branch (which returns), the stop of
  an expired tone, and the start of the next queued tone.
\<close>

definition stopExpired :: "u32 \<Rightarrow> Sound \<Rightarrow> Sound" where
  "stopExpired now s =
     (if toneActive s \<and> toneEndTime s \<le> now
      then s\<lparr>buzzer := None, toneActive := False\<rparr> else s)"

definition startNext :: "u32 \<Rightarrow> Sound \<Rightarrow> Sound" where
  "startNext now s =
     (if \<not> toneActive s \<and> toneHead s \<noteq> toneTail s
      then let event = toneQueue s ! unat (toneHead s) in
        s\<lparr>toneHead := nextIndex (toneHead s),
          buzzer := Some (freq event),
          tonesStarted := tonesStarted s @ [event],
          toneEndTime := now + ucast (duration event),
          toneActive := True\<rparr>
      else s)"

definition updateSound :: "u32 \<Rightarrow> Sound \<Rightarrow> Sound" where
  "updateSound now s =
     (if soundMuted s
      then (let s1 = (if toneActive s then s\<lparr>buzzer := None, toneActive := False\<rparr> else s)
            in s1\<lparr>toneHead := toneTail s1\<rparr>)
      else startNext now (stopExpired now s))"

text \<open>
  Number of queued events, as the ring buffer encodes it: the distance from head to
  tail, going round at the end of the array.
\<close>

definition occupancy :: "Sound \<Rightarrow> nat" where
  "occupancy s =
     (if unat (toneHead s) \<le> unat (toneTail s)
      then unat (toneTail s) - unat (toneHead s)
      else TONE_QUEUE_SIZE - unat (toneHead s) + unat (toneTail s))"

text \<open>The queued events, oldest first.\<close>

definition pending :: "Sound \<Rightarrow> ToneEvent list" where
  "pending s =
     map (\<lambda>k. toneQueue s ! ((unat (toneHead s) + k) mod TONE_QUEUE_SIZE)) [0..<occupancy s]"

text \<open>Calls into the sound system, and a run of them.\<close>

datatype SoundCall = Enqueue u16 u16 | Update u32 | Mute bool

fun soundCall :: "SoundCall \<Rightarrow> Sound \<Rightarrow> Sound" where
  "soundCall (Enqueue f d) s = enqueueTone f d s"
| "soundCall (Update now) s = updateSound now s"
| "soundCall (Mute m) s = setSoundMuted m s"

fun soundCalls :: "SoundCall list \<Rightarrow> Sound \<Rightarrow> Sound" where
  "soundCalls [] s = s"
| "soundCalls (c # cs) s = soundCalls cs (soundCall c s)"

text \<open>
  An \<open>enqueueTone\<close> call is accepted when it stores its event, that is, when it
  advances the tail. \<open>accepted cs s\<close> lists the events accepted during the run
  \<open>cs\<close> from \<open>s\<close>, in call order.
\<close>

definition accepts :: "u16 \<Rightarrow> u16 \<Rightarrow> Sound \<Rightarrow> bool" where
  "accepts f d s \<longleftrightarrow> toneTail (enqueueTone f d s) \<noteq> toneTail s"

fun accepted :: "SoundCall list \<Rightarrow> Sound \<Rightarrow> ToneEvent list" where
  "accepted [] s = []"
| "accepted (Enqueue f d # cs) s =
     (if accepts f d s then [\<lparr>freq = f, duration = d\<rparr>] else [])
       @ accepted cs (enqueueTone f d s)"
| "accepted (Update now # cs) s = accepted cs (updateSound now s)"
| "accepted (Mute m # cs) s = accepted cs (setSoundMuted m s)"

text \<open>Indices stay inside the array, which keeps its 24 slots.\<close>

definition queueOk :: "Sound \<Rightarrow> bool" where
  "queueOk s \<longleftrightarrow> length (toneQueue s) = TONE_QUEUE_SIZE
     \<and> unat (toneHead s) < TONE_QUEUE_SIZE \<and> unat (toneTail s) < TONE_QUEUE_SIZE"

text \<open>The flag \<open>toneActive\<close> tells whether the buzzer is playing.\<close>

definition buzzerOk :: "Sound \<Rightarrow> bool" where
  "buzzerOk s \<longleftrightarrow> (toneActive s \<longleftrightarrow> buzzer s \<noteq> None)"

subsection \<open>Button system\<close>

datatype ButtonId = B_UP | B_DOWN | B_LEFT | B_RIGHT | B_PAUSE | B_SELECT

text \<open>
  \<open>struct Button\<close> without its constant \<open>pin\<close>: the level read from the pin is an
  input of \<open>updateButtons\<close> (\<open>True\<close> when \<open>digitalRead(pin) == LOW\<close>, the
  button being down). The field \<open>last\<close> of the source is \<open>lastRaw\<close> here.
\<close>

record Button =
  stable :: bool
  lastRaw :: bool
  press :: bool
  release :: bool
  changedAt :: u32

type_synonym Buttons = "ButtonId \<Rightarrow> Button"

definition BTN_DEBOUNCE_MS :: u32 where
  "BTN_DEBOUNCE_MS = 30"

text \<open>The array \<open>buttons[BUTTON_COUNT]\<close> is indexed by \<open>ButtonId\<close>; the loops over
  \<open>i = 0 .. BUTTON_COUNT - 1\<close> visit the ids in this order.\<close>

definition allButtons :: "ButtonId list" where
  "allButtons = [B_UP, B_DOWN, B_LEFT, B_RIGHT, B_PAUSE, B_SELECT]"

text \<open>\<open>initButtons\<close>: \<open>pressed\<close> is the level read from each pin, \<open>millis\<close>
  the clock value stored (the source reads the clock once per button; one value
  stands for the six readings).\<close>

definition initButtons :: "u32 \<Rightarrow> (ButtonId \<Rightarrow> bool) \<Rightarrow> Buttons" where
  "initButtons millis pressed =
     (\<lambda>i. \<lparr>stable = pressed i, lastRaw = pressed i, press = False, release = False,
            changedAt = millis\<rparr>)"

definition clearButtonEdges :: "Buttons \<Rightarrow> Buttons" where
  "clearButtonEdges bs =
     foldl (\<lambda>b i. b(i := (b i)\<lparr>press := False, release := False\<rparr>)) bs allButtons"

text \<open>The body of the loop in \<open>updateButtons\<close>, for one button.\<close>

definition updateButton :: "u32 \<Rightarrow> bool \<Rightarrow> Button \<Rightarrow> Button" where
  "updateButton now raw b =
     (let b1 = (if raw \<noteq> lastRaw b then b\<lparr>lastRaw := raw, changedAt := now\<rparr> else b) in
      if BTN_DEBOUNCE_MS \<le> now - changedAt b1 \<and> raw \<noteq> stable b1
      then (let b2 = b1\<lparr>stable := raw\<rparr> in
            if raw then b2\<lparr>press := True\<rparr> else b2\<lparr>release := True\<rparr>)
      else b1)"

definition updateButtons :: "u32 \<Rightarrow> (ButtonId \<Rightarrow> bool) \<Rightarrow> Buttons \<Rightarrow> Buttons" where
  "updateButtons now raw bs =
     foldl (\<lambda>b i. b(i := updateButton now (raw i) (b i))) bs allButtons"

definition takePress :: "ButtonId \<Rightarrow> Buttons \<Rightarrow> bool \<times> Buttons" where
  "takePress i bs =
     (if \<not> press (bs i) then (False, bs)
      else (True, bs(i := (bs i)\<lparr>press := False\<rparr>)))"

definition isDown :: "ButtonId \<Rightarrow> Buttons \<Rightarrow> bool" where
  "isDown i bs = stable (bs i)"

text \<open>No edge flag of any button is set.\<close>

definition noEdges :: "Buttons \<Rightarrow> bool" where
  "noEdges bs \<longleftrightarrow> list_all (\<lambda>i. \<not> press (bs i) \<and> \<not> release (bs i)) allButtons"

text \<open>A run of \<open>updateButtons\<close> calls, one per tick, each with its clock value and
  the levels read.\<close>

fun sampleButtons :: "(u32 \<times> (ButtonId \<Rightarrow> bool)) list \<Rightarrow> Buttons \<Rightarrow> Buttons" where
  "sampleButtons [] bs = bs"
| "sampleButtons ((now, raw) # ts) bs = sampleButtons ts (updateButtons now raw bs)"

text \<open>
  A bouncing input for button \<open>i\<close>: at every sample, the raw level of \<open>i\<close> last
  changed less than the debounce window ago. The changes are the samples whose level
  differs from the one before; \<open>l\<close> and \<open>c\<close> are the level and the time of the last
  change before the run. Times are compared as the code computes them, in
  \<open>uint32_t\<close>.
\<close>

fun bouncing :: "ButtonId \<Rightarrow> bool \<Rightarrow> u32 \<Rightarrow> (u32 \<times> (ButtonId \<Rightarrow> bool)) list \<Rightarrow> bool" where
  "bouncing i l c [] = True"
| "bouncing i l c ((now, raw) # ts) =
     (let c' = (if raw i \<noteq> l then now else c) in
      now - c' < BTN_DEBOUNCE_MS \<and> bouncing i (raw i) c' ts)"

text \<open>
  Nothing happens on the buttons: every raw level equals both the last level seen and
  the stable level, and no press of SELECT or PAUSE is waiting to be taken.
\<close>

definition steady :: "(ButtonId \<Rightarrow> bool) \<Rightarrow> Buttons \<Rightarrow> bool" where
  "steady raw bs \<longleftrightarrow>
     list_all (\<lambda>i. lastRaw (bs i) = raw i \<and> stable (bs i) = raw i) allButtons
     \<and> \<not> press (bs B_SELECT) \<and> \<not> press (bs B_PAUSE)"

subsection \<open>Frame buffer\<close>

definition MATRIX_W :: int where
  "MATRIX_W = 8"

definition MATRIX_H :: int where
  "MATRIX_H = 8"

definition MATRIX_COUNT :: nat where
  "MATRIX_COUNT = 64"

text \<open>\<open>ledIndex\<close>: the arithmetic is done in \<open>int\<close> and narrowed to \<open>uint8_t\<close>.\<close>

definition ledIndex :: "u8 \<Rightarrow> u8 \<Rightarrow> u8" where
  "ledIndex x y =
     (if uint y mod 2 = 0
      then word_of_int (uint y * MATRIX_W + uint x)
      else word_of_int (uint y * MATRIX_W + (MATRIX_W - 1 - uint x)))"

definition clearFrame :: "u32 \<Rightarrow> u32 list" where
  "clearFrame color = replicate MATRIX_COUNT color"

text \<open>\<open>setPixel(int8_t x, int8_t y, uint32_t color)\<close> on the frame buffer.\<close>

definition setPixel :: "8 word \<Rightarrow> 8 word \<Rightarrow> u32 \<Rightarrow> u32 list \<Rightarrow> u32 list" where
  "setPixel x y color frameBuffer =
     (if sint x < 0 \<or> MATRIX_W \<le> sint x \<or> sint y < 0 \<or> MATRIX_H \<le> sint y
      then frameBuffer
      else frameBuffer[unat (ledIndex x y) := color])"

text \<open>\<open>showFrame\<close>: LED \<open>i\<close> of the strip gets \<open>frameBuffer[i]\<close>; the result is the
  strip, LED 0 first.\<close>

definition showFrame :: "u32 list \<Rightarrow> u32 list" where
  "showFrame frameBuffer = map (\<lambda>i. frameBuffer ! i) [0..<MATRIX_COUNT]"

subsection \<open>Session state\<close>

datatype SystemState = STATE_MENU | STATE_PLAYING | STATE_GAME_OVER

text \<open>\<open>enum GameId : uint8_t\<close>: a byte with 18 named values and the count.\<close>

type_synonym GameId = u8

definition GAME_SNAKE_WALL :: GameId where "GAME_SNAKE_WALL = 0"
definition GAME_SNAKE_WRAP :: GameId where "GAME_SNAKE_WRAP = 1"
definition GAME_TETRIS :: GameId where "GAME_TETRIS = 2"
definition GAME_FLAPPY_EASY :: GameId where "GAME_FLAPPY_EASY = 3"
definition GAME_FLAPPY_HARD :: GameId where "GAME_FLAPPY_HARD = 4"
definition GAME_ASTEROIDS_HARD :: GameId where "GAME_ASTEROIDS_HARD = 5"
definition GAME_PACMAN_EASY :: GameId where "GAME_PACMAN_EASY = 6"
definition GAME_PACMAN_HARD :: GameId where "GAME_PACMAN_HARD = 7"
definition GAME_SPACE_SHOOTER :: GameId where "GAME_SPACE_SHOOTER = 8"
definition GAME_BREAKOUT :: GameId where "GAME_BREAKOUT = 9"
definition GAME_TTT_AI :: GameId where "GAME_TTT_AI = 10"
definition GAME_TTT_2P :: GameId where "GAME_TTT_2P = 11"
definition GAME_PONG :: GameId where "GAME_PONG = 12"
definition GAME_TUG :: GameId where "GAME_TUG = 13"
definition GAME_CHECKERS_AI :: GameId where "GAME_CHECKERS_AI = 14"
definition GAME_CHECKERS_2P :: GameId where "GAME_CHECKERS_2P = 15"
definition GAME_MINESWEEPER :: GameId where "GAME_MINESWEEPER = 16"
definition GAME_DINO :: GameId where "GAME_DINO = 17"
definition GAME_COUNT :: GameId where "GAME_COUNT = 18"

definition GAME_OVER_DELAY_MS :: u32 where
  "GAME_OVER_DELAY_MS = 2000"

text \<open>
  The globals of the sketch that the host engine owns. \<open>menuIndex\<close> is an
  \<open>int8_t\<close> and \<open>score\<close> and the high scores are \<open>int16_t\<close>: words read with
  \<open>sint\<close> and compared with the signed order. \<open>highScore\<close> is the array of
  \<open>GAME_COUNT\<close> entries; \<open>lastMsg\<close> is the text held by the 24-byte buffer. The
  union \<open>gameState\<close> of the games' private data is not part of the record: the games
  enter as \<open>ModuleCode\<close> below.
\<close>

record Globals =
  buttons :: Buttons
  sound :: Sound
  systemState :: SystemState
  currentGame :: GameId
  menuIndex :: "8 word"
  score :: "16 word"
  highScore :: "16 word list"
  lastWin :: bool
  lastMsg :: string
  gamePaused :: bool
  menuMuteComboLatched :: bool
  gameOverStartTime :: u32

text \<open>The globals after \<open>setup()\<close>, which reads the clock and the button pins in
  \<open>initButtons\<close>; the boot animation touches none of them.\<close>

definition bootGlobals :: "u32 \<Rightarrow> (ButtonId \<Rightarrow> bool) \<Rightarrow> Globals" where
  "bootGlobals millis pressed =
     \<lparr> buttons = initButtons millis pressed, sound = bootSound, systemState = STATE_MENU,
       currentGame = GAME_SNAKE_WALL, menuIndex = 0, score = 0,
       highScore = replicate (unat GAME_COUNT) 0, lastWin = False, lastMsg = ''Game over'',
       gamePaused = False, menuMuteComboLatched = False, gameOverStartTime = 0 \<rparr>"

text \<open>A call of a sound function, and \<open>takePress\<close>, on the globals.\<close>

definition onSound :: "(Sound \<Rightarrow> Sound) \<Rightarrow> Globals \<Rightarrow> Globals" where
  "onSound f s = s\<lparr>sound := f (sound s)\<rparr>"

definition takePressG :: "ButtonId \<Rightarrow> Globals \<Rightarrow> bool \<times> Globals" where
  "takePressG i s = (fst (takePress i (buttons s)), s\<lparr>buttons := snd (takePress i (buttons s))\<rparr>)"

definition returnToMenu :: "Globals \<Rightarrow> Globals" where
  "returnToMenu s =
     s\<lparr>systemState := STATE_MENU, gamePaused := False, menuMuteComboLatched := False,
       buttons := clearButtonEdges (buttons s)\<rparr>"

text \<open>
  \<open>finishGame(win, message)\<close>. \<open>message\<close> is \<open>None\<close> for a null pointer, and
  \<open>millis\<close> is the value the call of \<open>millis()\<close> inside returns. \<open>strncpy\<close> of
  at most 23 bytes followed by the terminating zero keeps the first 23 characters.
\<close>

definition finishGame :: "bool \<Rightarrow> string option \<Rightarrow> u32 \<Rightarrow> Globals \<Rightarrow> Globals" where
  "finishGame win message millis s =
     (if systemState s \<noteq> STATE_PLAYING then s
      else
        let s1 = (if highScore s ! unat (currentGame s) <s score s
                  then s\<lparr>highScore := (highScore s)[unat (currentGame s) := score s]\<rparr>
                  else s);
            s2 = s1\<lparr>lastWin := win,
                   lastMsg := take 23 (case message of
                       Some m \<Rightarrow> m
                     | None \<Rightarrow> (if win then ''Win'' else ''Game over''))\<rparr>;
            s3 = s2\<lparr>systemState := STATE_GAME_OVER, gameOverStartTime := millis,
                   buttons := clearButtonEdges (buttons s2)\<rparr>
        in onSound (if win then beepWin else beepLose) s3)"

text \<open>
  \<open>initGame(id)\<close> (the parameter is \<open>gid\<close> here), as far as the globals go: the \<open>Init\<close> functions fill the
  games' private \<open>gameState\<close>, and those of Pong, Tug of War, Checkers, Minesweeper
  and Dino also write \<open>score = 0\<close>. (\<open>tetrisInit\<close> ends in \<open>tetrisSpawnPiece\<close>,
  whose call of \<open>finishGame\<close> needs an occupied cell under the new piece; the board
  has just been cleared.)
\<close>

definition initGame :: "GameId \<Rightarrow> Globals \<Rightarrow> Globals" where
  "initGame gid s =
     (if gid = GAME_PONG \<or> gid = GAME_TUG \<or> gid = GAME_CHECKERS_AI \<or> gid = GAME_CHECKERS_2P
         \<or> gid = GAME_MINESWEEPER \<or> gid = GAME_DINO
      then s\<lparr>score := 0\<rparr> else s)"

definition startGame :: "GameId \<Rightarrow> Globals \<Rightarrow> Globals" where
  "startGame gid s =
     (let s1 = s\<lparr>currentGame := gid, score := 0, lastWin := False, gamePaused := False,
                 menuMuteComboLatched := False, lastMsg := take 23 ''Game over'',
                 systemState := STATE_PLAYING\<rparr>;
          s2 = s1\<lparr>buttons := clearButtonEdges (buttons s1)\<rparr>
      in onSound beepStart (initGame gid s2))"

subsection \<open>Game modules\<close>

text \<open>
  The code of the games is not embedded line by line. What a game's update function
  does to the globals in one call is a finite tree of the host operations the games
  use: \<open>takePress\<close>, \<open>isDown\<close>, the beeps (each an \<open>enqueueTone\<close>), reading and
  writing \<open>score\<close>, reading \<open>systemState\<close>, and \<open>finishGame\<close> (with the value its
  \<open>millis()\<close> returns). Everything else a game does (its own \<open>gameState\<close>, the
  clock, the random numbers) decides which tree it is. No game assigns any other
  global, and \<open>gamePaused\<close> is touched only in the pause checks modelled below.
\<close>

datatype ModuleCode =
    Done
  | TakePress ButtonId "bool \<Rightarrow> ModuleCode"
  | IsDown ButtonId "bool \<Rightarrow> ModuleCode"
  | Beep u16 u16 ModuleCode
  | ReadScore "16 word \<Rightarrow> ModuleCode"
  | WriteScore "16 word" ModuleCode
  | ReadState "SystemState \<Rightarrow> ModuleCode"
  | Finish bool "string option" u32 ModuleCode

primrec runModule :: "ModuleCode \<Rightarrow> Globals \<Rightarrow> Globals" where
  "runModule Done s = s"
| "runModule (TakePress i k) s =
     runModule (k (fst (takePressG i s))) (snd (takePressG i s))"
| "runModule (IsDown i k) s = runModule (k (isDown i (buttons s))) s"
| "runModule (Beep f d c) s = runModule c (onSound (enqueueTone f d) s)"
| "runModule (ReadScore k) s = runModule (k (score s)) s"
| "runModule (WriteScore v c) s = runModule c (s\<lparr>score := v\<rparr>)"
| "runModule (ReadState k) s = runModule (k (systemState s)) s"
| "runModule (Finish win message millis c) s = runModule c (finishGame win message millis s)"

text \<open>
  The pause check that opens \<open>snakeUpdate\<close> and \<open>dinoUpdate\<close>: a PAUSE press
  toggles the flag and beeps; then the function returns if the flag is set and goes on
  with the game otherwise. \<open>rest\<close> is the code after the check.
\<close>

definition snakeUpdate :: "ModuleCode \<Rightarrow> Globals \<Rightarrow> Globals" where
  "snakeUpdate rest s =
     (let (p, s1) = takePressG B_PAUSE s;
          s2 = (if p then onSound beepButton (s1\<lparr>gamePaused := \<not> gamePaused s1\<rparr>) else s1)
      in if gamePaused s2 then s2 else runModule rest s2)"

definition dinoUpdate :: "ModuleCode \<Rightarrow> Globals \<Rightarrow> Globals" where
  "dinoUpdate rest s =
     (let (p, s1) = takePressG B_PAUSE s;
          s2 = (if p then onSound beepButton (s1\<lparr>gamePaused := \<not> gamePaused s1\<rparr>) else s1)
      in if gamePaused s2 then s2 else runModule rest s2)"

text \<open>
  The pause check that opens \<open>pacEasyUpdate\<close>, \<open>pacmanUpdate\<close>,
  \<open>breakoutUpdate\<close> and \<open>pongUpdate\<close>: a PAUSE press toggles the flag, beeps and
  returns; without a press the function returns if the flag is set.
\<close>

definition pacEasyUpdate :: "ModuleCode \<Rightarrow> Globals \<Rightarrow> Globals" where
  "pacEasyUpdate rest s =
     (let (p, s1) = takePressG B_PAUSE s in
      if p then onSound beepButton (s1\<lparr>gamePaused := \<not> gamePaused s1\<rparr>)
      else if gamePaused s1 then s1 else runModule rest s1)"

definition pacmanUpdate :: "ModuleCode \<Rightarrow> Globals \<Rightarrow> Globals" where
  "pacmanUpdate rest s =
     (let (p, s1) = takePressG B_PAUSE s in
      if p then onSound beepButton (s1\<lparr>gamePaused := \<not> gamePaused s1\<rparr>)
      else if gamePaused s1 then s1 else runModule rest s1)"

definition breakoutUpdate :: "ModuleCode \<Rightarrow> Globals \<Rightarrow> Globals" where
  "breakoutUpdate rest s =
     (let (p, s1) = takePressG B_PAUSE s in
      if p then onSound beepButton (s1\<lparr>gamePaused := \<not> gamePaused s1\<rparr>)
      else if gamePaused s1 then s1 else runModule rest s1)"

definition pongUpdate :: "ModuleCode \<Rightarrow> Globals \<Rightarrow> Globals" where
  "pongUpdate rest s =
     (let (p, s1) = takePressG B_PAUSE s in
      if p then onSound beepButton (s1\<lparr>gamePaused := \<not> gamePaused s1\<rparr>)
      else if gamePaused s1 then s1 else runModule rest s1)"

text \<open>
  \<open>updateGame(id, now)\<close>: the \<open>switch\<close> over the game id. \<open>rest now\<close> is the
  code of the selected game's update function (after its pause check, where it has
  one); the other twelve update functions have no pause check. An id that is no
  enumerator falls to \<open>default: break\<close>.
\<close>

definition updateGame :: "GameId \<Rightarrow> u32 \<Rightarrow> (u32 \<Rightarrow> ModuleCode) \<Rightarrow> Globals \<Rightarrow> Globals" where
  "updateGame gid now rest s =
     (if gid = GAME_SNAKE_WALL \<or> gid = GAME_SNAKE_WRAP then snakeUpdate (rest now) s
      else if gid = GAME_TETRIS then runModule (rest now) s
      else if gid = GAME_FLAPPY_EASY then runModule (rest now) s
      else if gid = GAME_FLAPPY_HARD then runModule (rest now) s
      else if gid = GAME_ASTEROIDS_HARD then runModule (rest now) s
      else if gid = GAME_PACMAN_EASY then pacEasyUpdate (rest now) s
      else if gid = GAME_PACMAN_HARD then pacmanUpdate (rest now) s
      else if gid = GAME_SPACE_SHOOTER then runModule (rest now) s
      else if gid = GAME_BREAKOUT then breakoutUpdate (rest now) s
      else if gid = GAME_TTT_AI \<or> gid = GAME_TTT_2P then runModule (rest now) s
      else if gid = GAME_PONG then pongUpdate (rest now) s
      else if gid = GAME_TUG then runModule (rest now) s
      else if gid = GAME_CHECKERS_AI \<or> gid = GAME_CHECKERS_2P then runModule (rest now) s
      else if gid = GAME_MINESWEEPER then runModule (rest now) s
      else if gid = GAME_DINO then dinoUpdate (rest now) s
      else s)"

subsection \<open>The main loop\<close>

text \<open>The MENU branch of \<open>loop()\<close>: the mute combo, then UP, DOWN and PAUSE.
  The index arithmetic is in \<open>int\<close>, with C's remainder.\<close>

definition menuMuteCombo :: "Globals \<Rightarrow> Globals" where
  "menuMuteCombo s =
     (let muteComboDown = isDown B_LEFT (buttons s) \<and> isDown B_RIGHT (buttons s);
          s1 = (if muteComboDown \<and> \<not> menuMuteComboLatched s
                then (let a = onSound (setSoundMuted (\<not> soundMuted (sound s))) s;
                          b = (if \<not> soundMuted (sound a) then onSound beepButton a else a)
                      in b\<lparr>menuMuteComboLatched := True,
                           buttons := clearButtonEdges (buttons b)\<rparr>)
                else s)
      in if \<not> muteComboDown then s1\<lparr>menuMuteComboLatched := False\<rparr> else s1)"

definition menuNavigate :: "Globals \<Rightarrow> Globals" where
  "menuNavigate s =
     (let (up, s1) = takePressG B_UP s;
          s2 = (if up
                then onSound beepButton
                  (s1\<lparr>menuIndex :=
                      word_of_int ((sint (menuIndex s1) + uint GAME_COUNT - 1) smod uint GAME_COUNT)\<rparr>)
                else s1);
          (down, s3) = takePressG B_DOWN s2;
          s4 = (if down
                then onSound beepButton
                  (s3\<lparr>menuIndex :=
                      word_of_int ((sint (menuIndex s3) + 1) smod uint GAME_COUNT)\<rparr>)
                else s3);
          (start, s5) = takePressG B_PAUSE s4
      in if start then startGame (menuIndex s5) (onSound beepButton s5) else s5)"

text \<open>The GAME_OVER branch: the timeout test short-circuits the two \<open>takePress\<close> calls.\<close>

definition gameOverInput :: "u32 \<Rightarrow> Globals \<Rightarrow> Globals" where
  "gameOverInput now s =
     (let (leave, s1) =
            (if GAME_OVER_DELAY_MS \<le> now - gameOverStartTime s then (True, s)
             else (let (p, a) = takePressG B_PAUSE s in
                   if p then (True, a) else takePressG B_SELECT a))
      in if leave then returnToMenu (onSound beepButton s1) else s1)"

text \<open>
  One pass of \<open>loop()\<close> up to and including \<open>updateSound\<close>: \<open>now\<close> is what
  \<open>millis()\<close> returns at the top, \<open>raw\<close> the levels \<open>updateButtons\<close> reads,
  \<open>rest\<close> the code of the running game. The rendering that follows in the source
  writes only the frame buffer, the displays and the two frame timestamps.
\<close>

definition loop :: "u32 \<Rightarrow> (ButtonId \<Rightarrow> bool) \<Rightarrow> (u32 \<Rightarrow> ModuleCode) \<Rightarrow> Globals \<Rightarrow> Globals" where
  "loop now raw rest s =
     (let s1 = s\<lparr>buttons := updateButtons now raw (buttons s)\<rparr>;
          (sel, s2) = takePressG B_SELECT s1;
          s3 = (if sel \<and> systemState s2 \<noteq> STATE_MENU
                then returnToMenu (onSound beepButton s2) else s2);
          s4 = (if systemState s3 = STATE_MENU then menuNavigate (menuMuteCombo s3)
                else if systemState s3 = STATE_PLAYING
                then updateGame (currentGame s3) now rest s3
                else gameOverInput now s3)
      in onSound (updateSound now) s4)"

text \<open>A run of passes, each with its clock value, levels and game code.\<close>

fun loops :: "(u32 \<times> (ButtonId \<Rightarrow> bool) \<times> (u32 \<Rightarrow> ModuleCode)) list \<Rightarrow> Globals \<Rightarrow> Globals" where
  "loops [] s = s"
| "loops ((now, raw, rest) # ts) s = loops ts (loop now raw rest s)"

text \<open>The high-score table of \<open>s'\<close> has the entries of \<open>s\<close>, none of them lower
  (in the signed order of \<open>int16_t\<close>).\<close>

definition highScoresGrow :: "Globals \<Rightarrow> Globals \<Rightarrow> bool" where
  "highScoresGrow s s' \<longleftrightarrow>
     length (highScore s') = length (highScore s)
     \<and> (\<forall>i < length (highScore s). highScore s ! i \<le>s highScore s' ! i)"

subsection \<open>Inputs used in the examples\<close>

text \<open>Pin levels: no button down, only LEFT down, only PAUSE down.\<close>

definition noneDown :: "ButtonId \<Rightarrow> bool" where
  "noneDown i = False"

definition leftDown :: "ButtonId \<Rightarrow> bool" where
  "leftDown i = (i = B_LEFT)"

definition pauseDown :: "ButtonId \<Rightarrow> bool" where
  "pauseDown i = (i = B_PAUSE)"

text \<open>LEFT and RIGHT down together: the mute combo of the menu.\<close>

definition bothDown :: "ButtonId \<Rightarrow> bool" where
  "bothDown i = (i = B_LEFT \<or> i = B_RIGHT)"

text \<open>A game whose update does nothing to the globals in this pass.\<close>

definition idleGame :: "u32 \<Rightarrow> ModuleCode" where
  "idleGame now = Done"

text \<open>
  \<open>flappyEasyUpdate\<close> in a pass in which the bird is not yet due to move: the
  statement \<open>if (takePress(B_UP) || takePress(B_PAUSE)) { velocity = -2; beepButton(); }\<close>
  and then the return of the interval test.
\<close>

definition flappyEasyFlap :: "u32 \<Rightarrow> ModuleCode" where
  "flappyEasyFlap now =
     TakePress B_UP (\<lambda>up.
       if up then Beep 1200 26 Done
       else TakePress B_PAUSE (\<lambda>pause. if pause then Beep 1200 26 Done else Done))"

section \<open>Properties of the sound system\<close>

lemma unat_nextIndex: "unat (nextIndex i) = (unat i + 1) mod 24"
proof -
  have "(unat i + 1) mod 24 < (256::nat)"
    by (rule less_trans [of _ 24]) simp_all
  then show ?thesis
    by (simp add: nextIndex_def TONE_QUEUE_SIZE_def unat_of_nat)
qed

lemma queueOk_boot: "queueOk bootSound"
  by (simp add: queueOk_def bootSound_def TONE_QUEUE_SIZE_def)

lemma queueOk_enqueueTone: "queueOk s \<Longrightarrow> queueOk (enqueueTone f d s)"
  by (simp add: queueOk_def enqueueTone_def Let_def unat_nextIndex TONE_QUEUE_SIZE_def)

lemma queueOk_setSoundMuted: "queueOk s \<Longrightarrow> queueOk (setSoundMuted m s)"
  by (simp add: queueOk_def setSoundMuted_def Let_def TONE_QUEUE_SIZE_def)

lemma queueOk_updateSound: "queueOk s \<Longrightarrow> queueOk (updateSound now s)"
  by (simp add: queueOk_def updateSound_def startNext_def stopExpired_def Let_def
      unat_nextIndex TONE_QUEUE_SIZE_def)

lemma queueOk_soundCall: "queueOk s \<Longrightarrow> queueOk (soundCall c s)"
  by (cases c) (simp_all add: queueOk_enqueueTone queueOk_updateSound queueOk_setSoundMuted)

lemma queueOk_soundCalls: "queueOk s \<Longrightarrow> queueOk (soundCalls cs s)"
  by (induction cs arbitrary: s) (simp_all add: queueOk_soundCall)

lemma occupancy_bound: "queueOk s \<Longrightarrow> occupancy s \<le> 23"
  by (auto simp: queueOk_def occupancy_def TONE_QUEUE_SIZE_def)

lemma full_next_is_head:
  assumes "queueOk s" and "occupancy s = 23"
  shows "nextIndex (toneTail s) = toneHead s"
proof -
  have full: "(t + 1) mod 24 = h"
    if "h < 24" "t < 24" "(if h \<le> t then t - h else 24 - h + t) = 23" for h t :: nat
  proof (cases "h \<le> t")
    case True
    with that have "t = 23" and "h = 0" by (simp_all split: if_splits)
    then show ?thesis by simp
  next
    case False
    with that have "h = t + 1" by (simp split: if_splits)
    with that show ?thesis by simp
  qed
  have "(unat (toneTail s) + 1) mod 24 = unat (toneHead s)"
    using assms unfolding queueOk_def occupancy_def TONE_QUEUE_SIZE_def
    by (intro full) (simp_all split: if_splits)
  then have "unat (nextIndex (toneTail s)) = unat (toneHead s)"
    by (simp add: unat_nextIndex)
  then show ?thesis by (simp only: word_unat_eq_iff)
qed

lemma mod24: "x < 48 \<Longrightarrow> x mod 24 = (if x < 24 then x else x - (24::nat))"
  by (simp add: le_mod_geq)

lemma nextIndex_neq: "nextIndex t \<noteq> t"
proof
  assume "nextIndex t = t"
  then have "unat (nextIndex t) = unat t" by simp
  then have *: "(unat t + 1) mod 24 = unat t" by (simp add: unat_nextIndex)
  have "(unat t + 1) mod 24 < 24" by simp
  with * have "unat t < 24" by simp
  with * show False by (simp add: mod24 split: if_splits)
qed

lemma ring1: "h < 24 \<Longrightarrow> t < 24 \<Longrightarrow> (t + 1) mod 24 \<noteq> h \<Longrightarrow>
   ((t + 1) mod 24 + 24 - h) mod 24 = Suc ((t + 24 - h) mod (24::nat))"
  by (simp add: mod24 split: if_splits; arith)

lemma ring2: "h < 24 \<Longrightarrow> t < 24 \<Longrightarrow> k < (t + 24 - h) mod 24 \<Longrightarrow> (h + k) mod 24 \<noteq> (t::nat)"
  by (simp add: mod24 split: if_splits; arith)

lemma ring3: "h < 24 \<Longrightarrow> t < 24 \<Longrightarrow> (h + (t + 24 - h) mod 24) mod 24 = (t::nat)"
  by (simp add: mod24 split: if_splits; arith)

lemma ring4: "h < 24 \<Longrightarrow> t < 24 \<Longrightarrow> h \<noteq> t \<Longrightarrow>
   (t + 24 - h) mod 24 = Suc ((t + 24 - (h + 1) mod 24) mod (24::nat))"
  by (simp add: mod24 split: if_splits; arith)

lemma ring5: "h < 24 \<Longrightarrow> k < 24 \<Longrightarrow> ((h + 1) mod 24 + k) mod 24 = (h + Suc k) mod (24::nat)"
  by (simp add: mod24 split: if_splits; arith)

lemma occ_mod: "h < 24 \<Longrightarrow> t < 24 \<Longrightarrow>
  (if h \<le> t then t - h else 24 - h + t) = (t + 24 - h) mod (24::nat)"
  by (simp add: mod24 split: if_splits; arith)

lemma occupancy_mod:
  "queueOk s \<Longrightarrow> occupancy s = (unat (toneTail s) + 24 - unat (toneHead s)) mod 24"
  unfolding occupancy_def queueOk_def TONE_QUEUE_SIZE_def by (simp only: occ_mod)

lemma accepted_fields:
  assumes "\<not> soundMuted s" and "nextIndex (toneTail s) \<noteq> toneHead s"
  shows "enqueueTone f d s =
    s\<lparr>toneQueue := (toneQueue s)[unat (toneTail s) := \<lparr>freq = f, duration = d\<rparr>],
      toneTail := nextIndex (toneTail s)\<rparr>"
  using assms by (simp add: enqueueTone_def Let_def)

lemma pending_enqueue:
  assumes ok: "queueOk s" and um: "\<not> soundMuted s"
    and room: "nextIndex (toneTail s) \<noteq> toneHead s"
  shows "pending (enqueueTone f d s) = pending s @ [\<lparr>freq = f, duration = d\<rparr>]"
proof -
  let ?h = "unat (toneHead s)" and ?t = "unat (toneTail s)"
  let ?e = "\<lparr>freq = f, duration = d\<rparr>"
  let ?s' = "enqueueTone f d s"
  have h: "?h < 24" and t: "?t < 24" and len: "length (toneQueue s) = 24"
    using ok by (simp_all add: queueOk_def TONE_QUEUE_SIZE_def)
  have ne: "(?t + 1) mod 24 \<noteq> ?h"
    using room by (simp add: word_unat_eq_iff unat_nextIndex)
  have ok': "queueOk ?s'" by (rule queueOk_enqueueTone [OF ok])
  have flds: "toneHead ?s' = toneHead s" "unat (toneTail ?s') = (?t + 1) mod 24"
    "toneQueue ?s' = (toneQueue s)[?t := ?e]"
    by (simp_all add: accepted_fields [OF um room] unat_nextIndex)
  have occ: "occupancy ?s' = Suc (occupancy s)"
    using ring1 [OF h t ne] by (simp add: occupancy_mod ok ok' flds)
  have old: "(toneQueue s)[?t := ?e] ! ((?h + k) mod 24) = toneQueue s ! ((?h + k) mod 24)"
    if "k < occupancy s" for k
    using ring2 [OF h t, of k] that by (simp add: occupancy_mod ok)
  have new: "(toneQueue s)[?t := ?e] ! ((?h + occupancy s) mod 24) = ?e"
    using ring3 [OF h t] t len by (simp add: occupancy_mod ok)
  show ?thesis
    unfolding pending_def occ flds(1) flds(3) TONE_QUEUE_SIZE_def
    by (simp add: old new)
qed

lemma pending_startNext:
  assumes ok: "queueOk s" and idle: "\<not> toneActive s" and ne: "toneHead s \<noteq> toneTail s"
  shows "pending s = toneQueue s ! unat (toneHead s) # pending (startNext now s)"
proof -
  let ?h = "unat (toneHead s)" and ?t = "unat (toneTail s)"
  let ?s' = "startNext now s"
  have h: "?h < 24" and t: "?t < 24"
    using ok by (simp_all add: queueOk_def TONE_QUEUE_SIZE_def)
  have ne': "?h \<noteq> ?t" using ne by (simp add: word_unat_eq_iff)
  have flds: "unat (toneHead ?s') = (?h + 1) mod 24" "toneTail ?s' = toneTail s"
    "toneQueue ?s' = toneQueue s"
    using idle ne by (simp_all add: startNext_def Let_def unat_nextIndex)
  have ok': "queueOk ?s'"
    using ok flds by (simp add: queueOk_def TONE_QUEUE_SIZE_def)
  have occ: "occupancy s = Suc (occupancy ?s')"
    using ring4 [OF h t ne'] by (simp add: occupancy_mod ok ok' flds)
  have lt: "occupancy ?s' < 24"
    using occupancy_bound [OF ok'] by simp
  have shift: "(Suc ?h mod 24 + k) mod 24 = Suc (?h + k) mod 24"
    if "k < occupancy ?s'" for k
    using ring5 [OF h, of k] that lt by simp
  have "pending s = map (\<lambda>k. toneQueue s ! ((?h + k) mod 24)) (0 # map Suc [0..<occupancy ?s'])"
    unfolding pending_def occ TONE_QUEUE_SIZE_def
    by (simp only: upt_conv_Cons [OF zero_less_Suc] map_Suc_upt)
  also have "\<dots> = toneQueue s ! ?h # pending ?s'"
    unfolding pending_def flds TONE_QUEUE_SIZE_def
    using h by (simp add: shift o_def)
  finally show ?thesis .
qed

lemma accepts_iff: "accepts f d s \<longleftrightarrow> \<not> soundMuted s \<and> nextIndex (toneTail s) \<noteq> toneHead s"
  by (simp add: accepts_def enqueueTone_def Let_def nextIndex_neq)

lemma rejected_same: "\<not> accepts f d s \<Longrightarrow> enqueueTone f d s = s"
  by (auto simp: accepts_iff enqueueTone_def Let_def)

lemma tonesStarted_enqueueTone: "tonesStarted (enqueueTone f d s) = tonesStarted s"
  by (simp add: enqueueTone_def Let_def)

lemma soundMuted_enqueueTone: "soundMuted (enqueueTone f d s) = soundMuted s"
  by (simp add: enqueueTone_def Let_def)

lemma pending_empty: "toneHead s = toneTail s \<Longrightarrow> pending s = []"
  by (simp add: pending_def occupancy_def)

lemma pending_stopExpired: "pending (stopExpired now s) = pending s"
  by (simp add: pending_def occupancy_def stopExpired_def)

lemma queueOk_stopExpired: "queueOk s \<Longrightarrow> queueOk (stopExpired now s)"
  by (simp add: queueOk_def stopExpired_def)

lemma tonesStarted_stopExpired: "tonesStarted (stopExpired now s) = tonesStarted s"
  by (simp add: stopExpired_def)

lemma startNext_cases:
  assumes "queueOk s"
  shows "(startNext now s = s) \<or>
     (\<exists>ev. tonesStarted (startNext now s) = tonesStarted s @ [ev]
        \<and> pending s = ev # pending (startNext now s))"
proof (cases "\<not> toneActive s \<and> toneHead s \<noteq> toneTail s")
  case True
  then have "tonesStarted (startNext now s) = tonesStarted s @ [toneQueue s ! unat (toneHead s)]"
    by (simp add: startNext_def Let_def)
  with pending_startNext [OF assms, of now] True show ?thesis by blast
next
  case False
  then have "startNext now s = s" by (auto simp: startNext_def)
  then show ?thesis by blast
qed

lemma soundMuted_updateSound: "soundMuted (updateSound now s) = soundMuted s"
  by (simp add: updateSound_def startNext_def stopExpired_def Let_def)

lemma update_trace:
  assumes "queueOk s"
  shows "\<exists>st. tonesStarted (updateSound now s) = tonesStarted s @ st
     \<and> (if soundMuted s then st = [] \<and> pending (updateSound now s) = []
         else st @ pending (updateSound now s) = pending s)"
proof (cases "soundMuted s")
  case True
  then have "tonesStarted (updateSound now s) = tonesStarted s"
    and "pending (updateSound now s) = []"
    by (simp_all add: updateSound_def Let_def pending_empty)
  with True show ?thesis by simp
next
  case False
  let ?s1 = "stopExpired now s"
  have u: "updateSound now s = startNext now ?s1"
    using False by (simp add: updateSound_def)
  from startNext_cases [OF queueOk_stopExpired [OF assms], of now now]
  show ?thesis
  proof
    assume "startNext now ?s1 = ?s1"
    with False u show ?thesis
      by (simp add: tonesStarted_stopExpired pending_stopExpired)
  next
    assume "\<exists>ev. tonesStarted (startNext now ?s1) = tonesStarted ?s1 @ [ev]
        \<and> pending ?s1 = ev # pending (startNext now ?s1)"
    with False u show ?thesis
      by (auto simp: tonesStarted_stopExpired pending_stopExpired)
  qed
qed

lemma mute_trace:
  "tonesStarted (setSoundMuted m s) = tonesStarted s
   \<and> soundMuted (setSoundMuted m s) = m
   \<and> (if m then pending (setSoundMuted m s) = [] else pending (setSoundMuted m s) = pending s)"
  by (simp add: setSoundMuted_def Let_def pending_def occupancy_def)

text \<open>One call: what it starts, followed by what it leaves queued, against what was
  queued before, followed by what it accepted.\<close>

lemma call_trace:
  assumes ok: "queueOk s"
  shows "\<exists>st. tonesStarted (soundCall c s) = tonesStarted s @ st
     \<and> subseq (st @ pending (soundCall c s)) (pending s @ accepted [c] s)
     \<and> (c \<noteq> Mute True \<and> \<not> soundMuted s \<longrightarrow>
          st @ pending (soundCall c s) = pending s @ accepted [c] s
          \<and> \<not> soundMuted (soundCall c s))"
proof (cases c)
  case (Enqueue f d)
  show ?thesis
  proof (cases "accepts f d s")
    case True
    then have "pending (enqueueTone f d s) = pending s @ [\<lparr>freq = f, duration = d\<rparr>]"
      using pending_enqueue [OF ok] by (simp add: accepts_iff)
    with True Enqueue show ?thesis
      by (simp add: tonesStarted_enqueueTone soundMuted_enqueueTone)
  next
    case False
    with Enqueue show ?thesis by (simp add: rejected_same)
  qed
next
  case (Update now)
  from update_trace [OF ok, of now] obtain st where
    st: "tonesStarted (updateSound now s) = tonesStarted s @ st"
      "if soundMuted s then st = [] \<and> pending (updateSound now s) = []
         else st @ pending (updateSound now s) = pending s"
    by blast
  show ?thesis
  proof (cases "soundMuted s")
    case True
    with st Update show ?thesis by simp
  next
    case False
    with st Update show ?thesis by (simp add: soundMuted_updateSound)
  qed
next
  case (Mute m)
  with mute_trace [of m s] show ?thesis by (cases m) simp_all
qed

lemma run_trace:
  assumes "queueOk s"
  shows "\<exists>st. tonesStarted (soundCalls cs s) = tonesStarted s @ st
     \<and> subseq (st @ pending (soundCalls cs s)) (pending s @ accepted cs s)
     \<and> (Mute True \<notin> set cs \<and> \<not> soundMuted s \<longrightarrow>
          st @ pending (soundCalls cs s) = pending s @ accepted cs s)"
  using assms
proof (induction cs arbitrary: s)
  case Nil
  then show ?case by simp
next
  case (Cons c cs)
  let ?s1 = "soundCall c s"
  have acc: "accepted (c # cs) s = accepted [c] s @ accepted cs ?s1"
    by (cases c) simp_all
  from call_trace [OF Cons.prems, of c] obtain st1 where
    a: "tonesStarted ?s1 = tonesStarted s @ st1"
    and b: "subseq (st1 @ pending ?s1) (pending s @ accepted [c] s)"
    and c: "c \<noteq> Mute True \<and> \<not> soundMuted s \<longrightarrow>
          st1 @ pending ?s1 = pending s @ accepted [c] s \<and> \<not> soundMuted ?s1"
    by blast
  from Cons.IH [OF queueOk_soundCall [OF Cons.prems], of c] obtain st2 where
    d: "tonesStarted (soundCalls cs ?s1) = tonesStarted ?s1 @ st2"
    and e: "subseq (st2 @ pending (soundCalls cs ?s1)) (pending ?s1 @ accepted cs ?s1)"
    and f: "Mute True \<notin> set cs \<and> \<not> soundMuted ?s1 \<longrightarrow>
          st2 @ pending (soundCalls cs ?s1) = pending ?s1 @ accepted cs ?s1"
    by blast
  have "subseq (st1 @ st2 @ pending (soundCalls cs ?s1)) (st1 @ pending ?s1 @ accepted cs ?s1)"
    using e by (simp add: subseq_append')
  moreover have "subseq (st1 @ pending ?s1 @ accepted cs ?s1)
      ((pending s @ accepted [c] s) @ accepted cs ?s1)"
    using b list_emb_append_mono [OF b subseq_order.order_refl [of "accepted cs ?s1"]]
    by simp
  ultimately have g: "subseq (st1 @ st2 @ pending (soundCalls cs ?s1))
      (pending s @ accepted (c # cs) s)"
    unfolding acc by (metis subseq_order.order_trans append.assoc)
  have h: "st1 @ st2 @ pending (soundCalls cs ?s1) = pending s @ accepted (c # cs) s"
    if "Mute True \<notin> set (c # cs)" "\<not> soundMuted s"
  proof -
    from that c have 1: "st1 @ pending ?s1 = pending s @ accepted [c] s" "\<not> soundMuted ?s1"
      by auto
    with that f have "st2 @ pending (soundCalls cs ?s1) = pending ?s1 @ accepted cs ?s1"
      by auto
    with 1 show ?thesis unfolding acc by (metis append.assoc)
  qed
  show ?case
    by (rule exI [of _ "st1 @ st2"]) (use a d g h in simp)
qed


text \<open>
  C3. Whatever calls to \<open>enqueueTone\<close>, \<open>updateSound\<close> (and \<open>setSoundMuted\<close>) are
  made from boot, the queue holds at most 23 of its 24 slots; and an \<open>enqueueTone\<close>
  on a queue holding 23 returns the state it was given: the contents and both indices
  are unchanged, and the function has no result that could tell the caller.
\<close>

theorem tone_queue_bounded:
  "occupancy (soundCalls cs bootSound) \<le> TONE_QUEUE_SIZE - 1
   \<and> (occupancy (soundCalls cs bootSound) = TONE_QUEUE_SIZE - 1 \<longrightarrow>
        enqueueTone f d (soundCalls cs bootSound) = soundCalls cs bootSound)"
proof -
  let ?s = "soundCalls cs bootSound"
  have ok: "queueOk ?s" by (rule queueOk_soundCalls [OF queueOk_boot])
  have "occupancy ?s \<le> 23" by (rule occupancy_bound [OF ok])
  moreover have "enqueueTone f d ?s = ?s" if "occupancy ?s = 23"
    using full_next_is_head [OF ok that] by (simp add: enqueueTone_def Let_def)
  ultimately show ?thesis by (simp add: TONE_QUEUE_SIZE_def)
qed

theorem tone_queue_bounded_witness:
  "occupancy (soundCalls (replicate 30 (Enqueue 440 50)) bootSound) = TONE_QUEUE_SIZE - 1
   \<and> enqueueTone 440 50 (soundCalls (replicate 30 (Enqueue 440 50)) bootSound)
       = soundCalls (replicate 30 (Enqueue 440 50)) bootSound"
proof -
  have "occupancy (soundCalls (replicate 30 (Enqueue 440 50)) bootSound) = 23"
    by code_simp
  then show ?thesis
    using tone_queue_bounded [of "replicate 30 (Enqueue 440 50)" 440 50]
    by (simp add: TONE_QUEUE_SIZE_def)
qed


lemma buzzerOk_soundCall: "buzzerOk s \<Longrightarrow> buzzerOk (soundCall c s)"
  by (cases c)
    (auto simp: buzzerOk_def enqueueTone_def setSoundMuted_def updateSound_def
      startNext_def stopExpired_def Let_def)

lemma buzzerOk_soundCalls: "buzzerOk s \<Longrightarrow> buzzerOk (soundCalls cs s)"
  by (induction cs arbitrary: s) (simp_all add: buzzerOk_soundCall)

lemma buzzerOk_boot: "buzzerOk bootSound"
  by (simp add: buzzerOk_def bootSound_def)

lemma start_needs_silence:
  assumes "buzzerOk s"
    and "tonesStarted (updateSound now s) \<noteq> tonesStarted s"
  shows "buzzer (stopExpired now s) = None \<and> (buzzer s = None \<or> toneEndTime s \<le> now)"
  using assms
  by (auto simp: buzzerOk_def updateSound_def startNext_def stopExpired_def Let_def
      split: if_splits)

lemma pending_boot: "pending bootSound = []"
  by (simp add: pending_empty bootSound_def)

lemma boot_fields: "tonesStarted bootSound = []" "\<not> soundMuted bootSound"
  by (simp_all add: bootSound_def)

text \<open>
  The plain prefix reading of C5 fails once the mute switch is used: two events are
  accepted, the first starts, muting empties the queue, and after unmuting a third
  event is accepted and started. Started: 500 Hz, 1200 Hz; accepted: 500, 850, 1200.
\<close>

theorem playback_prefix_counterexample:
  "\<not> prefix
     (tonesStarted (soundCalls
        [Enqueue 500 45, Enqueue 850 45, Update 0, Mute True, Mute False,
         Enqueue 1200 65, Update 100] bootSound))
     (accepted
        [Enqueue 500 45, Enqueue 850 45, Update 0, Mute True, Mute False,
         Enqueue 1200 65, Update 100] bootSound)"
  by code_simp

text \<open>
  C5 (amended). From boot, the events \<open>updateSound\<close> starts on the buzzer are, in
  order, a subsequence of the events \<open>enqueueTone\<close> accepted: nothing is played
  out of order or twice, and only events dropped by muting are skipped. In a run that
  never calls \<open>setSoundMuted(true)\<close> they are a prefix of the accepted events.
  And whenever \<open>updateSound\<close> starts a tone, the buzzer is silent at that
  point: either nothing was playing, or the playing tone had reached its end time and
  \<open>noTone\<close> was called first.
\<close>

theorem playback_fifo:
  "subseq (tonesStarted (soundCalls cs bootSound)) (accepted cs bootSound)
   \<and> (Mute True \<notin> set cs \<longrightarrow>
        prefix (tonesStarted (soundCalls cs bootSound)) (accepted cs bootSound))
   \<and> (tonesStarted (updateSound now (soundCalls cs bootSound))
          \<noteq> tonesStarted (soundCalls cs bootSound) \<longrightarrow>
        buzzer (stopExpired now (soundCalls cs bootSound)) = None
        \<and> (buzzer (soundCalls cs bootSound) = None
            \<or> toneEndTime (soundCalls cs bootSound) \<le> now))"
proof -
  let ?s = "soundCalls cs bootSound"
  from run_trace [OF queueOk_boot, of cs] obtain st where
    a: "tonesStarted ?s = st"
    and b: "subseq (st @ pending ?s) (accepted cs bootSound)"
    and c: "Mute True \<notin> set cs \<longrightarrow> st @ pending ?s = accepted cs bootSound"
    by (auto simp: pending_boot boot_fields)
  have "subseq st (st @ pending ?s)"
    by (rule list_emb_prefix [OF subseq_order.order_refl])
  from this b have 1: "subseq (tonesStarted ?s) (accepted cs bootSound)"
    unfolding a by (rule subseq_order.order_trans)
  have 2: "prefix (tonesStarted ?s) (accepted cs bootSound)" if "Mute True \<notin> set cs"
    using c that unfolding a by (metis prefixI)
  have 3: "buzzer (stopExpired now ?s) = None \<and> (buzzer ?s = None \<or> toneEndTime ?s \<le> now)"
    if "tonesStarted (updateSound now ?s) \<noteq> tonesStarted ?s"
    using start_needs_silence [OF buzzerOk_soundCalls [OF buzzerOk_boot] that] .
  from 1 2 3 show ?thesis by blast
qed

theorem playback_fifo_witness:
  "Mute True \<notin> set [Enqueue 500 45, Enqueue 850 45, Update 0, Update 50]
   \<and> tonesStarted (soundCalls [Enqueue 500 45, Enqueue 850 45, Update 0, Update 50] bootSound)
       = [\<lparr>freq = 500, duration = 45\<rparr>, \<lparr>freq = 850, duration = 45\<rparr>]
   \<and> prefix (tonesStarted (soundCalls [Enqueue 500 45, Enqueue 850 45, Update 0, Update 50] bootSound))
        (accepted [Enqueue 500 45, Enqueue 850 45, Update 0, Update 50] bootSound)
   \<and> tonesStarted (updateSound 50
         (soundCalls [Enqueue 500 45, Enqueue 850 45, Update 0] bootSound))
       \<noteq> tonesStarted (soundCalls [Enqueue 500 45, Enqueue 850 45, Update 0] bootSound)
   \<and> buzzer (stopExpired 50 (soundCalls [Enqueue 500 45, Enqueue 850 45, Update 0] bootSound)) = None"
proof -
  have m: "Mute True \<notin> set [Enqueue 500 45, Enqueue 850 45, Update 0, Update 50]"
    by simp
  have st: "tonesStarted (soundCalls [Enqueue 500 45, Enqueue 850 45, Update 0, Update 50] bootSound)
       = [\<lparr>freq = 500, duration = 45\<rparr>, \<lparr>freq = 850, duration = 45\<rparr>]"
    by code_simp
  have ne: "tonesStarted (updateSound 50
         (soundCalls [Enqueue 500 45, Enqueue 850 45, Update 0] bootSound))
       \<noteq> tonesStarted (soundCalls [Enqueue 500 45, Enqueue 850 45, Update 0] bootSound)"
    by code_simp
  show ?thesis
    using m st ne
      playback_fifo [of "[Enqueue 500 45, Enqueue 850 45, Update 0, Update 50]" 0]
      playback_fifo [of "[Enqueue 500 45, Enqueue 850 45, Update 0]" 50]
    by blast
qed

text \<open>
  C10. \<open>setSoundMuted(true)\<close> leaves no tone active, the buzzer silent and the
  queue empty (head equals tail). Whatever is called afterwards, the tones started from
  then on all come, in order, from events accepted after the mute: an event that was
  queued before muting is never played, also not after unmuting.
\<close>

theorem mute_discards_queue:
  assumes "length (toneQueue s) = TONE_QUEUE_SIZE"
  shows "\<not> toneActive (setSoundMuted True s)
     \<and> buzzer (setSoundMuted True s) = None
     \<and> toneHead (setSoundMuted True s) = toneTail (setSoundMuted True s)
     \<and> pending (setSoundMuted True s) = []
     \<and> prefix (tonesStarted s) (tonesStarted (soundCalls cs (setSoundMuted True s)))
     \<and> subseq (drop (length (tonesStarted s)) (tonesStarted (soundCalls cs (setSoundMuted True s))))
          (accepted cs (setSoundMuted True s))"
proof -
  let ?m = "setSoundMuted True s"
  have flds: "\<not> toneActive ?m" "buzzer ?m = None" "toneHead ?m = toneTail ?m"
    "tonesStarted ?m = tonesStarted s"
    by (simp_all add: setSoundMuted_def)
  have empty: "pending ?m = []" by (rule pending_empty [OF flds(3)])
  have ok: "queueOk ?m"
    using assms by (simp add: queueOk_def setSoundMuted_def TONE_QUEUE_SIZE_def)
  from run_trace [OF ok, of cs] obtain st where
    a: "tonesStarted (soundCalls cs ?m) = tonesStarted s @ st"
    and b: "subseq (st @ pending (soundCalls cs ?m)) (accepted cs ?m)"
    by (auto simp: empty flds)
  have "subseq st (st @ pending (soundCalls cs ?m))"
    by (rule list_emb_prefix [OF subseq_order.order_refl])
  from this b have "subseq st (accepted cs ?m)" by (rule subseq_order.order_trans)
  with a flds empty show ?thesis by simp
qed

theorem mute_discards_queue_witness:
  "length (toneQueue (soundCalls [Enqueue 500 45, Enqueue 850 45, Update 0] bootSound))
     = TONE_QUEUE_SIZE
   \<and> pending (soundCalls [Enqueue 500 45, Enqueue 850 45, Update 0] bootSound)
       = [\<lparr>freq = 850, duration = 45\<rparr>]
   \<and> pending (setSoundMuted True
        (soundCalls [Enqueue 500 45, Enqueue 850 45, Update 0] bootSound)) = []
   \<and> tonesStarted (soundCalls [Mute False, Enqueue 1200 65, Update 100, Update 200]
        (setSoundMuted True (soundCalls [Enqueue 500 45, Enqueue 850 45, Update 0] bootSound)))
       = [\<lparr>freq = 500, duration = 45\<rparr>, \<lparr>freq = 1200, duration = 65\<rparr>]"
proof -
  have len: "length (toneQueue (soundCalls [Enqueue 500 45, Enqueue 850 45, Update 0] bootSound))
     = TONE_QUEUE_SIZE"
    by code_simp
  have p: "pending (soundCalls [Enqueue 500 45, Enqueue 850 45, Update 0] bootSound)
       = [\<lparr>freq = 850, duration = 45\<rparr>]"
    by code_simp
  have t: "tonesStarted (soundCalls [Mute False, Enqueue 1200 65, Update 100, Update 200]
        (setSoundMuted True (soundCalls [Enqueue 500 45, Enqueue 850 45, Update 0] bootSound)))
       = [\<lparr>freq = 500, duration = 45\<rparr>, \<lparr>freq = 1200, duration = 65\<rparr>]"
    by code_simp
  show ?thesis
    using len p t
      mute_discards_queue [OF len, of "[Mute False, Enqueue 1200 65, Update 100, Update 200]"]
    by simp
qed

section \<open>Properties of the button system\<close>

lemma updateButtons_at: "updateButtons now raw bs i = updateButton now (raw i) (bs i)"
  by (cases i) (simp_all add: updateButtons_def allButtons_def)

lemma clearButtonEdges_at:
  "clearButtonEdges bs i = (bs i)\<lparr>press := False, release := False\<rparr>"
  by (cases i) (simp_all add: clearButtonEdges_def allButtons_def)

lemma bounce_step:
  assumes "now - (if raw \<noteq> lastRaw b then now else changedAt b) < BTN_DEBOUNCE_MS"
  shows "updateButton now raw b =
    b\<lparr>lastRaw := raw, changedAt := (if raw \<noteq> lastRaw b then now else changedAt b)\<rparr>"
  using assms by (auto simp: updateButton_def Let_def not_le [symmetric])

lemma bounce_run:
  "bouncing i (lastRaw (bs i)) (changedAt (bs i)) ts \<Longrightarrow>
   stable (sampleButtons ts bs i) = stable (bs i)
   \<and> press (sampleButtons ts bs i) = press (bs i)
   \<and> release (sampleButtons ts bs i) = release (bs i)"
proof (induction ts arbitrary: bs)
  case Nil
  then show ?case by simp
next
  case (Cons t ts)
  obtain now raw where t: "t = (now, raw)" by (cases t)
  let ?c = "if raw i \<noteq> lastRaw (bs i) then now else changedAt (bs i)"
  from Cons.prems have w: "now - ?c < BTN_DEBOUNCE_MS"
    and rest: "bouncing i (raw i) ?c ts"
    by (simp_all add: t Let_def)
  have step: "updateButtons now raw bs i = (bs i)\<lparr>lastRaw := raw i, changedAt := ?c\<rparr>"
    using bounce_step [OF w] by (simp add: updateButtons_at)
  have "bouncing i (lastRaw (updateButtons now raw bs i)) (changedAt (updateButtons now raw bs i)) ts"
    using rest by (simp add: step)
  from Cons.IH [of "updateButtons now raw bs", OF this] show ?case by (simp add: t step)
qed



lemma bouncing_take: "bouncing i l c ts \<Longrightarrow> bouncing i l c (take n ts)"
proof (induction ts arbitrary: l c n)
  case Nil
  then show ?case by simp
next
  case (Cons t ts)
  obtain now raw where t: "t = (now, raw)" by (cases t)
  show ?case
  proof (cases n)
    case 0
    then show ?thesis by simp
  next
    case (Suc m)
    with Cons.prems Cons.IH show ?thesis by (simp add: t Let_def)
  qed
qed

text \<open>
  C4. Take any run of \<open>updateButtons\<close> calls in which the raw level of a button
  keeps changing before it has been steady for the 30 ms window: at every sample the
  last change of the raw level (a sample that differs from the one before) lies less
  than 30 ms back. At every point of such a run the stable level that \<open>isDown\<close>
  reports is the one from before the run, and neither edge flag has been set or
  cleared: the bounces leave no trace.
\<close>

theorem bounces_absorbed:
  assumes "bouncing i (lastRaw (bs i)) (changedAt (bs i)) ts"
  shows "isDown i (sampleButtons (take n ts) bs) = isDown i bs
     \<and> press (sampleButtons (take n ts) bs i) = press (bs i)
     \<and> release (sampleButtons (take n ts) bs i) = release (bs i)"
  using bounce_run [of i bs "take n ts", OF bouncing_take [OF assms, of n]]
  by (simp add: isDown_def)

theorem bounces_absorbed_witness:
  "bouncing B_LEFT (lastRaw (initButtons 0 (noneDown) B_LEFT))
      (changedAt (initButtons 0 (noneDown) B_LEFT))
      [(100, leftDown), (105, noneDown), (110, leftDown), (139, leftDown)]
   \<and> \<not> isDown B_LEFT (sampleButtons
      [(100, leftDown), (105, noneDown), (110, leftDown), (139, leftDown)]
      (initButtons 0 (noneDown)))
   \<and> \<not> press (sampleButtons
      [(100, leftDown), (105, noneDown), (110, leftDown), (139, leftDown)]
      (initButtons 0 (noneDown)) B_LEFT)"
proof -
  have b: "bouncing B_LEFT (lastRaw (initButtons 0 (noneDown) B_LEFT))
      (changedAt (initButtons 0 (noneDown) B_LEFT))
      [(100, leftDown), (105, noneDown), (110, leftDown), (139, leftDown)]"
    by (simp add: initButtons_def BTN_DEBOUNCE_MS_def Let_def leftDown_def noneDown_def)
  show ?thesis
    using b bounces_absorbed [of B_LEFT "initButtons 0 (noneDown)"
        "[(100, leftDown), (105, noneDown), (110, leftDown), (139, leftDown)]"
        4, OF b]
    by (simp add: isDown_def initButtons_def noneDown_def)
qed

lemma updateButton_flags:
  "(press (updateButton now r b) \<and> \<not> press b \<longrightarrow>
      r \<and> stable (updateButton now r b) \<and> release (updateButton now r b) = release b)
   \<and> (release (updateButton now r b) \<and> \<not> release b \<longrightarrow>
      \<not> r \<and> \<not> stable (updateButton now r b) \<and> press (updateButton now r b) = press b)
   \<and> (press b \<longrightarrow> press (updateButton now r b))
   \<and> (release b \<longrightarrow> release (updateButton now r b))"
  by (simp add: updateButton_def Let_def)

section \<open>Properties of the frame buffer\<close>

lemma ledIndex_small:
  assumes "x < 8" and "y < 8"
  shows "unat (ledIndex x y) =
    (if even (unat y) then unat y * 8 + unat x else unat y * 8 + (8 - 1 - unat x))"
proof -
  define a b where ab: "a = unat x" "b = unat y"
  have ux: "uint x = int a" "uint y = int b" by (simp_all add: ab)
  have a: "a < 8" and b: "b < 8"
    using assms by (simp_all add: word_less_nat_alt ab)
  have ev: "(int b mod 2 = 0) = even b" by presburger
  have "int b * 8 + (8 - 1 - int a) = int (b * 8 + (7 - a))"
    using a by simp
  moreover have "int b * 8 + int a = int (b * 8 + a)" by simp
  ultimately have val: "ledIndex x y = of_nat (if even b then b * 8 + a else b * 8 + (7 - a))"
    unfolding ledIndex_def MATRIX_W_def ux ev by (simp only: of_int_of_nat_eq if_distrib [of of_nat])
  have "(if even b then b * 8 + a else b * 8 + (7 - a)) < 256"
    using a b by (simp split: if_splits; arith)
  then have "unat (ledIndex x y) = (if even b then b * 8 + a else b * 8 + (7 - a))"
    unfolding val by (simp only: unat_of_nat) simp
  then show ?thesis by (simp add: ab)
qed

lemma sint_small:
  assumes "(x :: 8 word) < 8"
  shows "sint x = uint x"
proof -
  have "uint x < 8" using assms by (simp add: word_less_alt)
  then have hi: "uint x < 2 ^ 7" by simp
  have lo: "- (2 ^ 7) \<le> uint x" by (rule order_trans [of _ 0]) simp_all
  from lo hi have "signed_take_bit 7 (uint x) = uint x"
    by (rule signed_take_bit_int_eq_self)
  then show ?thesis by (simp add: sint_uint)
qed

lemma ledIndex_bound:
  assumes "x < 8" and "y < 8"
  shows "unat (ledIndex x y) < 64"
proof -
  have "unat x < 8" and "unat y < 8"
    using assms by (simp_all add: word_less_nat_alt)
  then show ?thesis
    unfolding ledIndex_small [OF assms] by (simp split: if_splits; arith)
qed

lemma setPixel_shown:
  assumes "x < 8" and "y < 8" and len: "length fb = MATRIX_COUNT"
  shows "showFrame (setPixel x y c fb) ! unat (ledIndex x y) = c"
proof -
  have ux: "uint x < 8" "uint y < 8" using assms by (simp_all add: word_less_alt)
  have set: "setPixel x y c fb = fb[unat (ledIndex x y) := c]"
    using ux by (simp add: setPixel_def sint_small assms MATRIX_W_def MATRIX_H_def)
  have i: "unat (ledIndex x y) < 64" by (rule ledIndex_bound [OF assms(1,2)])
  show ?thesis
    using i len by (simp add: set showFrame_def MATRIX_COUNT_def)
qed

text \<open>
  C7. For a coordinate inside the 8 by 8 grid the physical index is serpentine:
  \<open>y * 8 + x\<close> on even rows and \<open>y * 8 + (8 - 1 - x)\<close> on odd rows. This is the
  LED on which \<open>showFrame\<close> presents what \<open>setPixel\<close> wrote for that coordinate.
\<close>

theorem serpentine_index:
  assumes "x < 8" and "y < 8"
  shows "unat (ledIndex x y) =
      (if even (unat y) then unat y * 8 + unat x else unat y * 8 + (8 - 1 - unat x))
    \<and> (length fb = MATRIX_COUNT \<longrightarrow>
         showFrame (setPixel x y c fb) ! unat (ledIndex x y) = c)"
  using ledIndex_small [OF assms] setPixel_shown [OF assms] by blast

theorem serpentine_index_witness:
  "(2 :: u8) < 8 \<and> (3 :: u8) < 8 \<and> unat (ledIndex 2 3) = 29 \<and> unat (ledIndex 2 4) = 34
   \<and> length (clearFrame 0) = MATRIX_COUNT
   \<and> showFrame (setPixel 2 3 255 (clearFrame 0)) ! 29 = 255"
proof -
  have a: "(2 :: u8) < 8" and b: "(3 :: u8) < 8" and c: "(4 :: u8) < 8" by simp_all
  have len: "length (clearFrame 0) = MATRIX_COUNT" by (simp add: clearFrame_def)
  show ?thesis
    using a b len serpentine_index [OF a b, of "clearFrame 0" 255]
      serpentine_index [OF a c, of "clearFrame 0" 255]
    by auto
qed
section \<open>Properties of the session state machine\<close>

lemmas game_ids =
  GAME_SNAKE_WALL_def GAME_SNAKE_WRAP_def GAME_TETRIS_def GAME_FLAPPY_EASY_def
  GAME_FLAPPY_HARD_def GAME_ASTEROIDS_HARD_def GAME_PACMAN_EASY_def GAME_PACMAN_HARD_def
  GAME_SPACE_SHOOTER_def GAME_BREAKOUT_def GAME_TTT_AI_def GAME_TTT_2P_def GAME_PONG_def
  GAME_TUG_def GAME_CHECKERS_AI_def GAME_CHECKERS_2P_def GAME_MINESWEEPER_def
  GAME_DINO_def GAME_COUNT_def

lemma takePressG_fst: "fst (takePressG i s) = press (buttons s i)"
  by (simp add: takePressG_def takePress_def)

lemma takePressG_snd_fields:
  "systemState (snd (takePressG i s)) = systemState s"
  "gameOverStartTime (snd (takePressG i s)) = gameOverStartTime s"
  "highScore (snd (takePressG i s)) = highScore s"
  "score (snd (takePressG i s)) = score s"
  "gamePaused (snd (takePressG i s)) = gamePaused s"
  "currentGame (snd (takePressG i s)) = currentGame s"
  "sound (snd (takePressG i s)) = sound s"
  "menuMuteComboLatched (snd (takePressG i s)) = menuMuteComboLatched s"
  "menuIndex (snd (takePressG i s)) = menuIndex s"
  by (simp_all add: takePressG_def)

lemma takePressG_snd_buttons:
  "buttons (snd (takePressG i s)) j =
     (if j = i then (buttons s i)\<lparr>press := False\<rparr> else buttons s j)"
  by (simp add: takePressG_def takePress_def)

lemma takePressG_idle: "\<not> press (buttons s i) \<Longrightarrow> snd (takePressG i s) = s"
  by (simp add: takePressG_def takePress_def)

lemma returnToMenu_fields:
  "systemState (returnToMenu s) = STATE_MENU"
  "buttons (returnToMenu s) i = (buttons s i)\<lparr>press := False, release := False\<rparr>"
  "highScore (returnToMenu s) = highScore s"
  "score (returnToMenu s) = score s"
  by (simp_all add: returnToMenu_def clearButtonEdges_at)

lemma menuMuteCombo_fields:
  "systemState (menuMuteCombo s) = systemState s"
  "highScore (menuMuteCombo s) = highScore s"
  "score (menuMuteCombo s) = score s"
  "press (buttons (menuMuteCombo s) i) \<longrightarrow> press (buttons s i)"
  by (simp_all add: menuMuteCombo_def Let_def onSound_def clearButtonEdges_at)

lemma startGame_fields:
  "systemState (startGame g s) = STATE_PLAYING"
  "score (startGame g s) = 0"
  "highScore (startGame g s) = highScore s"
  by (simp_all add: startGame_def Let_def onSound_def initGame_def)

lemma menuNavigate_state:
  "systemState (menuNavigate s) =
     (if press (buttons s B_PAUSE) then STATE_PLAYING else systemState s)"
  by (simp add: menuNavigate_def Let_def case_prod_beta takePressG_fst takePressG_snd_fields
      takePressG_snd_buttons onSound_def startGame_fields)

lemma gameOverInput_state:
  "systemState s = STATE_GAME_OVER \<Longrightarrow>
   systemState (gameOverInput now s) =
     (if GAME_OVER_DELAY_MS \<le> now - gameOverStartTime s
         \<or> press (buttons s B_PAUSE) \<or> press (buttons s B_SELECT)
      then STATE_MENU else STATE_GAME_OVER)"
  by (simp add: gameOverInput_def Let_def case_prod_beta takePressG_fst takePressG_snd_fields
      takePressG_snd_buttons onSound_def returnToMenu_fields)

lemma loop_game_over_state:
  assumes "systemState s = STATE_GAME_OVER"
  shows "systemState (loop now raw rest s) =
     (if press (updateButtons now raw (buttons s) B_SELECT)
         \<or> press (updateButtons now raw (buttons s) B_PAUSE)
         \<or> GAME_OVER_DELAY_MS \<le> now - gameOverStartTime s
      then STATE_MENU else STATE_GAME_OVER)"
proof (cases "press (updateButtons now raw (buttons s) B_SELECT)")
  case True
  let ?s2 = "snd (takePressG B_SELECT (s\<lparr>buttons := updateButtons now raw (buttons s)\<rparr>))"
  let ?s3 = "returnToMenu (onSound beepButton ?s2)"
  have "\<not> press (buttons (menuMuteCombo ?s3) B_PAUSE)"
    using menuMuteCombo_fields(4) [of ?s3 B_PAUSE] by (simp add: returnToMenu_fields)
  then have "systemState (menuNavigate (menuMuteCombo ?s3)) = STATE_MENU"
    by (simp add: menuNavigate_state menuMuteCombo_fields returnToMenu_fields)
  with True assms show ?thesis
    by (simp add: loop_def Let_def case_prod_beta takePressG_fst takePressG_snd_fields
        onSound_def returnToMenu_fields)
next
  case False
  let ?s1 = "s\<lparr>buttons := updateButtons now raw (buttons s)\<rparr>"
  have idle: "snd (takePressG B_SELECT ?s1) = ?s1"
    using False by (simp add: takePressG_idle)
  have "systemState ?s1 = STATE_GAME_OVER" using assms by simp
  from gameOverInput_state [OF this, of now] False assms show ?thesis
    by (simp add: loop_def Let_def case_prod_beta takePressG_fst idle onSound_def)
qed


lemma allButtons_all: "i \<in> set allButtons"
  by (cases i) (simp_all add: allButtons_def)

lemma updateButton_steady: "lastRaw b = r \<Longrightarrow> stable b = r \<Longrightarrow> updateButton now r b = b"
  by (simp add: updateButton_def)

lemma updateButtons_steady:
  assumes "steady raw bs"
  shows "updateButtons now raw bs = bs"
proof
  fix i
  from assms have "lastRaw (bs i) = raw i \<and> stable (bs i) = raw i"
    using allButtons_all [of i] by (auto simp: steady_def list_all_iff)
  then show "updateButtons now raw bs i = bs i"
    by (simp add: updateButtons_at updateButton_steady)
qed

lemma gameOverInput_wait:
  assumes "now - gameOverStartTime s < GAME_OVER_DELAY_MS"
    and "\<not> press (buttons s B_PAUSE)" and "\<not> press (buttons s B_SELECT)"
  shows "gameOverInput now s = s"
  using assms
  by (simp add: gameOverInput_def Let_def case_prod_beta takePressG_fst takePressG_idle
      not_le [symmetric])

lemma loop_game_over_wait:
  assumes go: "systemState s = STATE_GAME_OVER"
    and st: "steady raw (buttons s)"
    and early: "now - gameOverStartTime s < GAME_OVER_DELAY_MS"
  shows "loop now raw rest s = onSound (updateSound now) s"
proof -
  have b: "updateButtons now raw (buttons s) = buttons s"
    by (rule updateButtons_steady [OF st])
  have np: "\<not> press (buttons s B_SELECT)" "\<not> press (buttons s B_PAUSE)"
    using st by (simp_all add: steady_def)
  have s1: "s\<lparr>buttons := updateButtons now raw (buttons s)\<rparr> = s"
    by (simp add: b)
  have w: "gameOverInput now s = s"
    by (rule gameOverInput_wait [OF early np(2) np(1)])
  show ?thesis
    unfolding loop_def s1
    using go np by (simp add: Let_def case_prod_beta takePressG_fst takePressG_idle w)
qed

lemma loops_game_over_wait:
  assumes "systemState s = STATE_GAME_OVER" and "steady r (buttons s)"
    and "\<forall>(t, rst) \<in> set ts. t - gameOverStartTime s < GAME_OVER_DELAY_MS"
  shows "systemState (loops (map (\<lambda>(t, rst). (t, r, rst)) ts) s) = STATE_GAME_OVER
     \<and> steady r (buttons (loops (map (\<lambda>(t, rst). (t, r, rst)) ts) s))
     \<and> gameOverStartTime (loops (map (\<lambda>(t, rst). (t, r, rst)) ts) s) = gameOverStartTime s"
  using assms
proof (induction ts arbitrary: s)
  case Nil
  then show ?case by simp
next
  case (Cons a ts)
  obtain t rst where a: "a = (t, rst)" by (cases a)
  from Cons.prems(3) have early: "t - gameOverStartTime s < GAME_OVER_DELAY_MS"
    by (simp add: a)
  have step: "loop t r rst s = onSound (updateSound t) s"
    by (rule loop_game_over_wait [OF Cons.prems(1,2) early])
  have "systemState (loop t r rst s) = STATE_GAME_OVER"
    and "steady r (buttons (loop t r rst s))"
    and "\<forall>(t', rst') \<in> set ts.
        t' - gameOverStartTime (loop t r rst s) < GAME_OVER_DELAY_MS"
    using Cons.prems by (simp_all add: step onSound_def)
  from Cons.IH [OF this] show ?case
    by (simp add: a step onSound_def)
qed

text \<open>
  C1. In the game-over state, one pass of \<open>loop()\<close> ends in the menu exactly when
  a press edge of SELECT or PAUSE is there after \<open>updateButtons\<close> or at least
  2000 ms have passed since \<open>gameOverStartTime\<close>; otherwise it ends in the
  game-over state. So a cancel press returns to the menu in the pass that sees it,
  whatever the elapsed time. With no input (the levels steady, no press waiting), the
  state is still game-over after any run of passes that all come earlier than 2000 ms,
  and the first pass at 2000 ms or later ends in the menu. \<open>gameOverStartTime\<close> is
  the clock value read when \<open>finishGame\<close> entered the state. Elapsed time is
  \<open>now - gameOverStartTime\<close> in \<open>uint32_t\<close>, as the code computes it.
\<close>

theorem game_over_exit:
  assumes "systemState s = STATE_GAME_OVER"
  shows "systemState (loop now raw rest s) =
       (if press (updateButtons now raw (buttons s) B_SELECT)
           \<or> press (updateButtons now raw (buttons s) B_PAUSE)
           \<or> GAME_OVER_DELAY_MS \<le> now - gameOverStartTime s
        then STATE_MENU else STATE_GAME_OVER)
     \<and> (steady r (buttons s)
          \<and> (\<forall>(t, rst) \<in> set ts. t - gameOverStartTime s < GAME_OVER_DELAY_MS) \<longrightarrow>
        systemState (loops (map (\<lambda>(t, rst). (t, r, rst)) ts) s) = STATE_GAME_OVER
        \<and> (GAME_OVER_DELAY_MS \<le> now - gameOverStartTime s \<longrightarrow>
             systemState (loop now r rest (loops (map (\<lambda>(t, rst). (t, r, rst)) ts) s))
               = STATE_MENU))
     \<and> (systemState p = STATE_PLAYING \<longrightarrow>
          systemState (finishGame win message millis p) = STATE_GAME_OVER
          \<and> gameOverStartTime (finishGame win message millis p) = millis)"
proof -
  have 1: "systemState (loop now raw rest s) =
       (if press (updateButtons now raw (buttons s) B_SELECT)
           \<or> press (updateButtons now raw (buttons s) B_PAUSE)
           \<or> GAME_OVER_DELAY_MS \<le> now - gameOverStartTime s
        then STATE_MENU else STATE_GAME_OVER)"
    by (rule loop_game_over_state [OF assms])
  have 2: "systemState (loops (map (\<lambda>(t, rst). (t, r, rst)) ts) s) = STATE_GAME_OVER
        \<and> (GAME_OVER_DELAY_MS \<le> now - gameOverStartTime s \<longrightarrow>
             systemState (loop now r rest (loops (map (\<lambda>(t, rst). (t, r, rst)) ts) s))
               = STATE_MENU)"
    if "steady r (buttons s)"
      and "\<forall>(t, rst) \<in> set ts. t - gameOverStartTime s < GAME_OVER_DELAY_MS"
  proof -
    let ?s' = "loops (map (\<lambda>(t, rst). (t, r, rst)) ts) s"
    from loops_game_over_wait [OF assms that]
    have a: "systemState ?s' = STATE_GAME_OVER"
      and c: "gameOverStartTime ?s' = gameOverStartTime s"
      by simp_all
    from loop_game_over_state [OF a, of now r rest] a c show ?thesis by simp
  qed
  have 3: "systemState (finishGame win message millis p) = STATE_GAME_OVER
          \<and> gameOverStartTime (finishGame win message millis p) = millis"
    if "systemState p = STATE_PLAYING"
    using that by (simp add: finishGame_def Let_def onSound_def)
  from 1 2 3 show ?thesis by blast
qed


lemma finishGame_buttons:
  "systemState p = STATE_PLAYING \<Longrightarrow>
   buttons (finishGame win message millis p) i = (buttons p i)\<lparr>press := False, release := False\<rparr>"
  by (simp add: finishGame_def Let_def onSound_def clearButtonEdges_at)

lemma startGame_buttons:
  "buttons (startGame g s) i = (buttons s i)\<lparr>press := False, release := False\<rparr>"
  by (simp add: startGame_def Let_def onSound_def initGame_def clearButtonEdges_at)

theorem game_over_exit_witness:
  "systemState (finishGame False (Some ''Stacked out'') 5000
       (startGame GAME_TETRIS (bootGlobals 0 (noneDown)))) = STATE_GAME_OVER
   \<and> steady noneDown (buttons (finishGame False (Some ''Stacked out'') 5000
       (startGame GAME_TETRIS (bootGlobals 0 (noneDown)))))
   \<and> 6999 - gameOverStartTime (finishGame False (Some ''Stacked out'') 5000
          (startGame GAME_TETRIS (bootGlobals 0 (noneDown)))) < GAME_OVER_DELAY_MS
   \<and> GAME_OVER_DELAY_MS \<le> 7000 - gameOverStartTime (finishGame False (Some ''Stacked out'') 5000
          (startGame GAME_TETRIS (bootGlobals 0 (noneDown))))
   \<and> systemState (loops
        (map (\<lambda>(t, rst). (t, noneDown, rst))
          [(5016, idleGame), (6000, idleGame), (6999, idleGame)])
        (finishGame False (Some ''Stacked out'') 5000
          (startGame GAME_TETRIS (bootGlobals 0 (noneDown))))) = STATE_GAME_OVER
   \<and> systemState (loop 7000 (noneDown) (idleGame) (loops
        (map (\<lambda>(t, rst). (t, noneDown, rst))
          [(5016, idleGame), (6000, idleGame), (6999, idleGame)])
        (finishGame False (Some ''Stacked out'') 5000
          (startGame GAME_TETRIS (bootGlobals 0 (noneDown)))))) = STATE_MENU"
proof -
  let ?p = "startGame GAME_TETRIS (bootGlobals 0 (noneDown))"
  let ?s = "finishGame False (Some ''Stacked out'') 5000 ?p"
  have p: "systemState ?p = STATE_PLAYING" by (simp add: startGame_fields)
  have go: "systemState ?s = STATE_GAME_OVER"
    and st: "gameOverStartTime ?s = 5000"
    using p by (simp_all add: finishGame_def Let_def onSound_def)
  have b: "buttons ?s i = \<lparr>stable = False, lastRaw = False, press = False, release = False,
      changedAt = 0\<rparr>" for i
    unfolding finishGame_buttons [OF p] startGame_buttons
    by (simp add: bootGlobals_def initButtons_def noneDown_def)
  have steady: "steady noneDown (buttons ?s)"
    unfolding steady_def allButtons_def b by (simp add: noneDown_def)
  have early: "\<forall>(t, rst) \<in> set [(5016, idleGame), (6000, idleGame), (6999, idleGame)].
        t - gameOverStartTime ?s < GAME_OVER_DELAY_MS"
    by (simp add: st GAME_OVER_DELAY_MS_def)
  have late: "GAME_OVER_DELAY_MS \<le> 7000 - gameOverStartTime ?s"
    by (simp add: st GAME_OVER_DELAY_MS_def)
  note run = game_over_exit [OF go, of 7000 "noneDown" "idleGame" "noneDown"
      "[(5016, idleGame), (6000, idleGame), (6999, idleGame)]"
      ?p False "Some ''Stacked out''" 5000, THEN conjunct2, THEN conjunct1, THEN mp,
      OF conjI [OF steady early]]
  from run have stay: "systemState (loops
        (map (\<lambda>(t, rst). (t, noneDown, rst))
          [(5016, idleGame), (6000, idleGame), (6999, idleGame)]) ?s) = STATE_GAME_OVER"
    by (rule conjunct1)
  from run [THEN conjunct2, THEN mp, OF late]
  have leave: "systemState (loop 7000 (noneDown) (idleGame) (loops
        (map (\<lambda>(t, rst). (t, noneDown, rst))
          [(5016, idleGame), (6000, idleGame), (6999, idleGame)]) ?s)) = STATE_MENU" .
  have last: "6999 - gameOverStartTime ?s < GAME_OVER_DELAY_MS"
    by (simp add: st GAME_OVER_DELAY_MS_def)
  from go steady last late stay leave show ?thesis by (intro conjI)
qed


lemma highScoresGrow_refl: "highScoresGrow s s"
  by (simp add: highScoresGrow_def)

lemma highScoresGrow_same: "highScore s' = highScore s \<Longrightarrow> highScoresGrow s s'"
  by (simp add: highScoresGrow_def)

lemma highScoresGrow_trans:
  "highScoresGrow a b \<Longrightarrow> highScoresGrow b c \<Longrightarrow> highScoresGrow a c"
  unfolding highScoresGrow_def
  by (metis signed.order_trans)

lemma finishGame_highScore:
  "highScore (finishGame win message millis s) =
     (if systemState s = STATE_PLAYING \<and> highScore s ! unat (currentGame s) <s score s
      then (highScore s)[unat (currentGame s) := score s] else highScore s)"
  by (simp add: finishGame_def Let_def onSound_def)

lemma finishGame_grows: "highScoresGrow s (finishGame win message millis s)"
proof -
  have "highScore s ! i \<le>s (highScore s)[unat (currentGame s) := score s] ! i"
    if "highScore s ! unat (currentGame s) <s score s" and "i < length (highScore s)" for i
  proof (cases "i = unat (currentGame s)")
    case True
    with that show ?thesis by (simp add: signed.less_imp_le)
  next
    case False
    then show ?thesis by simp
  qed
  then show ?thesis
    unfolding highScoresGrow_def finishGame_highScore by simp
qed

lemma runModule_grows: "highScoresGrow s (runModule c s)"
proof (induction c arbitrary: s)
  case Done
  show ?case by (simp add: highScoresGrow_refl)
next
  case (TakePress i k)
  have "highScoresGrow s (snd (takePressG i s))"
    by (rule highScoresGrow_same) (simp add: takePressG_snd_fields)
  from highScoresGrow_trans [OF this TakePress.IH] show ?case by simp
next
  case (IsDown i k)
  then show ?case by simp
next
  case (Beep f d c)
  have "highScoresGrow s (onSound (enqueueTone f d) s)"
    by (rule highScoresGrow_same) (simp add: onSound_def)
  from highScoresGrow_trans [OF this Beep.IH] show ?case by simp
next
  case (ReadScore k)
  then show ?case by simp
next
  case (WriteScore v c)
  have "highScoresGrow s (s\<lparr>score := v\<rparr>)"
    by (rule highScoresGrow_same) simp
  from highScoresGrow_trans [OF this WriteScore.IH] show ?case by simp
next
  case (ReadState k)
  then show ?case by simp
next
  case (Finish win message millis c)
  from highScoresGrow_trans [OF finishGame_grows Finish.IH] show ?case by simp
qed


lemma pause_toggle_grows:
  "highScoresGrow s (onSound beepButton ((snd (takePressG B_PAUSE s))\<lparr>gamePaused := v\<rparr>))"
  by (rule highScoresGrow_same) (simp add: onSound_def takePressG_snd_fields)

lemma after_take_grows: "highScoresGrow s (runModule c (snd (takePressG B_PAUSE s)))"
proof -
  have "highScoresGrow s (snd (takePressG B_PAUSE s))"
    by (rule highScoresGrow_same) (simp add: takePressG_snd_fields)
  from highScoresGrow_trans [OF this runModule_grows] show ?thesis .
qed

lemma after_toggle_grows:
  "highScoresGrow s
     (runModule c (onSound beepButton ((snd (takePressG B_PAUSE s))\<lparr>gamePaused := v\<rparr>)))"
  by (rule highScoresGrow_trans [OF pause_toggle_grows runModule_grows])

lemma take_grows: "highScoresGrow s (snd (takePressG B_PAUSE s))"
  by (rule highScoresGrow_same) (simp add: takePressG_snd_fields)

lemma snakeUpdate_grows: "highScoresGrow s (snakeUpdate c s)"
  by (simp add: snakeUpdate_def Let_def case_prod_beta pause_toggle_grows after_take_grows
      after_toggle_grows take_grows)

lemma dinoUpdate_grows: "highScoresGrow s (dinoUpdate c s)"
  by (simp add: dinoUpdate_def Let_def case_prod_beta pause_toggle_grows after_take_grows
      after_toggle_grows take_grows)

lemma pacEasyUpdate_grows: "highScoresGrow s (pacEasyUpdate c s)"
  by (simp add: pacEasyUpdate_def Let_def case_prod_beta pause_toggle_grows after_take_grows
      take_grows)

lemma pacmanUpdate_grows: "highScoresGrow s (pacmanUpdate c s)"
  by (simp add: pacmanUpdate_def Let_def case_prod_beta pause_toggle_grows after_take_grows
      take_grows)

lemma breakoutUpdate_grows: "highScoresGrow s (breakoutUpdate c s)"
  by (simp add: breakoutUpdate_def Let_def case_prod_beta pause_toggle_grows after_take_grows
      take_grows)

lemma pongUpdate_grows: "highScoresGrow s (pongUpdate c s)"
  by (simp add: pongUpdate_def Let_def case_prod_beta pause_toggle_grows after_take_grows
      take_grows)

lemma updateGame_grows: "highScoresGrow s (updateGame g now rest s)"
  by (simp add: updateGame_def runModule_grows snakeUpdate_grows dinoUpdate_grows
      pacEasyUpdate_grows pacmanUpdate_grows breakoutUpdate_grows pongUpdate_grows
      highScoresGrow_refl)

lemma menuNavigate_highScore: "highScore (menuNavigate s) = highScore s"
  by (simp add: menuNavigate_def Let_def case_prod_beta takePressG_snd_fields onSound_def
      startGame_fields)

lemma gameOverInput_highScore: "highScore (gameOverInput now s) = highScore s"
  by (simp add: gameOverInput_def Let_def case_prod_beta takePressG_snd_fields onSound_def
      returnToMenu_fields)

lemma loop_grows: "highScoresGrow s (loop now raw rest s)"
proof -
  let ?s2 = "snd (takePressG B_SELECT (s\<lparr>buttons := updateButtons now raw (buttons s)\<rparr>))"
  let ?s3 = "if fst (takePressG B_SELECT (s\<lparr>buttons := updateButtons now raw (buttons s)\<rparr>))
      \<and> systemState ?s2 \<noteq> STATE_MENU then returnToMenu (onSound beepButton ?s2) else ?s2"
  let ?s4 = "if systemState ?s3 = STATE_MENU then menuNavigate (menuMuteCombo ?s3)
      else if systemState ?s3 = STATE_PLAYING then updateGame (currentGame ?s3) now rest ?s3
      else gameOverInput now ?s3"
  have l: "loop now raw rest s = onSound (updateSound now) ?s4"
    by (simp add: loop_def Let_def case_prod_beta)
  have 3: "highScore ?s3 = highScore s"
    by (simp add: takePressG_snd_fields returnToMenu_fields onSound_def)
  have "highScoresGrow ?s3 ?s4"
    by (simp add: updateGame_grows highScoresGrow_same menuNavigate_highScore
        menuMuteCombo_fields gameOverInput_highScore)
  then have "highScoresGrow s ?s4"
    by (simp add: highScoresGrow_def 3)
  then show ?thesis
    unfolding l by (simp add: highScoresGrow_def onSound_def)
qed

lemma loops_grows: "highScoresGrow s (loops ts s)"
proof (induction ts arbitrary: s)
  case Nil
  show ?case by (simp add: highScoresGrow_refl)
next
  case (Cons t ts)
  obtain now raw rest where t: "t = (now, raw, rest)" by (cases t)
  from highScoresGrow_trans [OF loop_grows Cons.IH] show ?case by (simp add: t)
qed

text \<open>
  C8. Over any run of passes of \<open>loop()\<close>, whatever the games do through the host
  operations, no entry of the high-score table ever gets lower, and the table keeps its
  length. \<open>finishGame\<close> changes the table only in the Playing state and only when
  \<open>score\<close> is strictly above the entry of the current game, which then becomes
  \<open>score\<close>. \<open>startGame\<close> sets \<open>score\<close> to 0 and leaves the table alone.
\<close>

theorem high_score_monotone:
  "highScoresGrow s (loops ts s)
   \<and> highScoresGrow s (runModule c s)
   \<and> highScore (finishGame win message millis s) =
       (if systemState s = STATE_PLAYING \<and> highScore s ! unat (currentGame s) <s score s
        then (highScore s)[unat (currentGame s) := score s] else highScore s)
   \<and> score (startGame g s) = 0
   \<and> highScore (startGame g s) = highScore s"
  by (simp add: loops_grows runModule_grows finishGame_highScore startGame_fields)

text \<open>
  C9. Outside the Playing state \<open>finishGame\<close> returns the globals it was given:
  state, score, high scores, win flag, message, buttons and tone queue are all unchanged.
\<close>

theorem finish_outside_playing:
  "systemState s \<noteq> STATE_PLAYING \<Longrightarrow> finishGame win message millis s = s"
  by (simp add: finishGame_def)

theorem finish_outside_playing_witness:
  "systemState (bootGlobals 0 (noneDown)) \<noteq> STATE_PLAYING
   \<and> finishGame True (Some ''You win'') 1234 (bootGlobals 0 (noneDown))
       = bootGlobals 0 (noneDown)"
proof -
  have m: "systemState (bootGlobals 0 (noneDown)) \<noteq> STATE_PLAYING"
    by (simp add: bootGlobals_def)
  from m finish_outside_playing [OF m, of True "Some ''You win''" 1234]
  show ?thesis by (rule conjI)
qed


theorem high_score_monotone_witness:
  "highScore (startGame GAME_TETRIS (bootGlobals 0 (noneDown))) ! 2 = 0
   \<and> highScore (runModule (WriteScore 50 (Finish False (Some ''Stacked out'') 9 Done))
        (startGame GAME_TETRIS (bootGlobals 0 (noneDown)))) ! 2 = 50
   \<and> highScoresGrow (startGame GAME_TETRIS (bootGlobals 0 (noneDown)))
        (runModule (WriteScore 50 (Finish False (Some ''Stacked out'') 9 Done))
          (startGame GAME_TETRIS (bootGlobals 0 (noneDown))))
   \<and> score (startGame GAME_TETRIS (bootGlobals 0 (noneDown))) = 0"
proof -
  let ?p = "startGame GAME_TETRIS (bootGlobals 0 (noneDown))"
  have hs: "highScore ?p = replicate 18 0"
    by (simp add: startGame_fields bootGlobals_def GAME_COUNT_def)
  have st: "systemState (?p\<lparr>score := 50\<rparr>) = STATE_PLAYING"
    by (simp add: startGame_fields)
  have cg: "unat (currentGame ?p) = 2"
    by (simp add: startGame_def Let_def onSound_def initGame_def game_ids)
  have a: "highScore ?p ! 2 = 0" by (simp add: hs)
  have b: "highScore (runModule (WriteScore 50 (Finish False (Some ''Stacked out'') 9 Done)) ?p) ! 2
      = 50"
    by (simp add: finishGame_highScore st cg hs word_sless_alt)
  note c = high_score_monotone [of ?p "[]"
      "WriteScore 50 (Finish False (Some ''Stacked out'') 9 Done)" False None 9 GAME_TETRIS,
      THEN conjunct2, THEN conjunct1]
  note d = high_score_monotone [of "bootGlobals 0 (noneDown)" "[]" Done False None 9
      GAME_TETRIS, THEN conjunct2, THEN conjunct2, THEN conjunct2, THEN conjunct1]
  from a b c d show ?thesis by (intro conjI)
qed

lemma loop_playing:
  assumes "systemState s = STATE_PLAYING"
    and "\<not> press (updateButtons now raw (buttons s) B_SELECT)"
  shows "loop now raw rest s =
     onSound (updateSound now)
       (updateGame (currentGame s) now rest (s\<lparr>buttons := updateButtons now raw (buttons s)\<rparr>))"
  using assms
  by (simp add: loop_def Let_def case_prod_beta takePressG_fst takePressG_idle)

lemma paused_idle:
  assumes "gamePaused s" and "\<not> press (buttons s B_PAUSE)"
  shows "snakeUpdate c s = s" "dinoUpdate c s = s" "pacEasyUpdate c s = s"
    "pacmanUpdate c s = s" "breakoutUpdate c s = s" "pongUpdate c s = s"
  using assms
  by (simp_all add: snakeUpdate_def dinoUpdate_def pacEasyUpdate_def pacmanUpdate_def
      breakoutUpdate_def pongUpdate_def Let_def case_prod_beta takePressG_fst takePressG_idle)

lemma pause_pressed:
  assumes "press (buttons s B_PAUSE)"
  shows "pacEasyUpdate c s =
      onSound beepButton ((snd (takePressG B_PAUSE s))\<lparr>gamePaused := \<not> gamePaused s\<rparr>)"
    "pacmanUpdate c s =
      onSound beepButton ((snd (takePressG B_PAUSE s))\<lparr>gamePaused := \<not> gamePaused s\<rparr>)"
    "breakoutUpdate c s =
      onSound beepButton ((snd (takePressG B_PAUSE s))\<lparr>gamePaused := \<not> gamePaused s\<rparr>)"
    "pongUpdate c s =
      onSound beepButton ((snd (takePressG B_PAUSE s))\<lparr>gamePaused := \<not> gamePaused s\<rparr>)"
  using assms
  by (simp_all add: pacEasyUpdate_def pacmanUpdate_def breakoutUpdate_def pongUpdate_def
      Let_def case_prod_beta takePressG_fst takePressG_snd_fields)

lemma pause_set:
  assumes "press (buttons s B_PAUSE)" and "\<not> gamePaused s"
  shows "snakeUpdate c s =
      onSound beepButton ((snd (takePressG B_PAUSE s))\<lparr>gamePaused := True\<rparr>)"
    "dinoUpdate c s =
      onSound beepButton ((snd (takePressG B_PAUSE s))\<lparr>gamePaused := True\<rparr>)"
  using assms
  by (simp_all add: snakeUpdate_def dinoUpdate_def Let_def case_prod_beta takePressG_fst
      takePressG_snd_fields onSound_def)

lemma runModule_gamePaused: "gamePaused (runModule c s) = gamePaused s"
proof (induction c arbitrary: s)
  case (Finish win message millis c)
  then show ?case by (simp add: finishGame_def Let_def onSound_def)
qed (simp_all add: takePressG_snd_fields onSound_def)


lemma menuMuteCombo_quiet:
  "\<not> isDown B_RIGHT (buttons s) \<Longrightarrow>
   menuMuteCombo s = s\<lparr>menuMuteComboLatched := False\<rparr>"
  by (simp add: menuMuteCombo_def Let_def)

lemma menuNavigate_quiet:
  assumes "\<not> press (buttons s B_UP)" "\<not> press (buttons s B_DOWN)" "\<not> press (buttons s B_PAUSE)"
  shows "menuNavigate s = s"
  using assms
  by (simp add: menuNavigate_def Let_def case_prod_beta takePressG_fst takePressG_idle)

lemma loop_menu_quiet:
  assumes menu: "systemState s = STATE_MENU"
    and others: "\<And>i. i \<noteq> B_LEFT \<Longrightarrow>
       \<not> raw i \<and> \<not> stable (buttons s i) \<and> \<not> lastRaw (buttons s i) \<and> \<not> press (buttons s i)"
  shows "loop now raw rest s =
     onSound (updateSound now)
       (s\<lparr>buttons := (buttons s)(B_LEFT := updateButton now (raw B_LEFT) (buttons s B_LEFT)),
          menuMuteComboLatched := False\<rparr>)"
proof -
  let ?b = "(buttons s)(B_LEFT := updateButton now (raw B_LEFT) (buttons s B_LEFT))"
  have b: "updateButtons now raw (buttons s) = ?b"
  proof
    fix i
    show "updateButtons now raw (buttons s) i = ?b i"
      using others [of i] by (cases "i = B_LEFT") (simp_all add: updateButtons_at updateButton_steady)
  qed
  let ?s1 = "s\<lparr>buttons := ?b\<rparr>"
  have np: "\<not> press (buttons ?s1 B_SELECT)" "\<not> press (buttons ?s1 B_UP)"
    "\<not> press (buttons ?s1 B_DOWN)" "\<not> press (buttons ?s1 B_PAUSE)"
    "\<not> isDown B_RIGHT (buttons ?s1)"
    using others [of B_SELECT] others [of B_UP] others [of B_DOWN] others [of B_PAUSE]
      others [of B_RIGHT]
    by (simp_all add: isDown_def)
  have combo: "menuMuteCombo ?s1 = ?s1\<lparr>menuMuteComboLatched := False\<rparr>"
    using np(5) by (simp add: menuMuteCombo_quiet)
  have nav: "menuNavigate (?s1\<lparr>menuMuteComboLatched := False\<rparr>) = ?s1\<lparr>menuMuteComboLatched := False\<rparr>"
    using np by (simp add: menuNavigate_quiet)
  show ?thesis
    unfolding loop_def b
    using menu np(1) by (simp add: Let_def case_prod_beta takePressG_fst takePressG_idle combo nav)
qed

subsection \<open>Where the edge flags are cleared\<close>

text \<open>
  \<open>clearButtonEdges\<close> has four callers: \<open>returnToMenu\<close>, \<open>startGame\<close>,
  \<open>finishGame\<close> and the mute combo in the menu branch of \<open>loop()\<close>. The lemmas
  below follow the edge flags through the game code, the three branches of
  \<open>loop()\<close> and one whole pass.
\<close>

lemma noEdges_iff: "noEdges bs \<longleftrightarrow> (\<forall>i. \<not> press (bs i) \<and> \<not> release (bs i))"
  using allButtons_all by (auto simp: noEdges_def list_all_iff)

lemma noEdges_clear: "noEdges (clearButtonEdges bs)"
  by (simp add: noEdges_iff clearButtonEdges_at)

lemma noEdges_takePress: "noEdges bs \<Longrightarrow> noEdges (snd (takePress i bs))"
  by (simp add: noEdges_iff takePress_def)

lemma noEdges_returnToMenu: "noEdges (buttons (returnToMenu s))"
  by (simp add: returnToMenu_def noEdges_clear)

lemma noEdges_startGame: "noEdges (buttons (startGame g s))"
  by (simp add: startGame_def Let_def onSound_def initGame_def noEdges_clear)

lemma noEdges_finishGame:
  "systemState s = STATE_PLAYING \<Longrightarrow> noEdges (buttons (finishGame win message millis s))"
  by (simp add: noEdges_iff finishGame_buttons)

lemma finishGame_keeps_noEdges:
  assumes "noEdges (buttons s)"
  shows "noEdges (buttons (finishGame win message millis s))"
proof (cases "systemState s = STATE_PLAYING")
  case True
  then show ?thesis by (rule noEdges_finishGame)
next
  case False
  with assms show ?thesis by (simp add: finishGame_def)
qed

lemma finishGame_state:
  "systemState (finishGame win message millis s) =
     (if systemState s = STATE_PLAYING then STATE_GAME_OVER else systemState s)"
  by (simp add: finishGame_def Let_def onSound_def)

lemma runModule_state_other:
  "systemState s \<noteq> STATE_PLAYING \<Longrightarrow> systemState (runModule c s) = systemState s"
  by (induction c arbitrary: s)
    (simp_all add: takePressG_snd_fields onSound_def finishGame_state)

lemma runModule_noEdges: "noEdges (buttons s) \<Longrightarrow> noEdges (buttons (runModule c s))"
proof (induction c arbitrary: s)
  case (TakePress i k)
  have "noEdges (buttons (snd (takePressG i s)))"
    using TakePress.prems by (simp add: takePressG_def noEdges_takePress)
  from TakePress.IH [OF rangeI this] show ?case by simp
next
  case (Finish win message millis c)
  from Finish.IH [OF finishGame_keeps_noEdges [OF Finish.prems]] show ?case by simp
qed (simp_all add: onSound_def)

lemma runModule_transition:
  "systemState (runModule c s) \<noteq> systemState s \<Longrightarrow> noEdges (buttons (runModule c s))"
proof (induction c arbitrary: s)
  case (TakePress i k)
  from TakePress.IH [OF rangeI, of "fst (takePressG i s)" "snd (takePressG i s)"]
    TakePress.prems
  show ?case by (simp add: takePressG_snd_fields)
next
  case (Beep f d c)
  from Beep.IH [of "onSound (enqueueTone f d) s"] Beep.prems
  show ?case by (simp add: onSound_def)
next
  case (WriteScore v c)
  from WriteScore.IH [of "s\<lparr>score := v\<rparr>"] WriteScore.prems show ?case by simp
next
  case (Finish win message millis c)
  show ?case
  proof (cases "systemState s = STATE_PLAYING")
    case True
    from runModule_noEdges [OF noEdges_finishGame [OF True]] show ?thesis by simp
  next
    case False
    then have "finishGame win message millis s = s" by (simp add: finishGame_def)
    with Finish.IH [of s] Finish.prems show ?thesis by simp
  qed
qed simp_all

lemma runModule_release:
  "release (buttons s i) \<Longrightarrow> systemState (runModule c s) = systemState s \<Longrightarrow>
   release (buttons (runModule c s) i)"
proof (induction c arbitrary: s)
  case (TakePress j k)
  from TakePress.IH [OF rangeI, of "snd (takePressG j s)" "fst (takePressG j s)"]
    TakePress.prems
  show ?case by (cases "i = j") (simp_all add: takePressG_snd_fields takePressG_snd_buttons)
next
  case (Beep f d c)
  from Beep.IH [of "onSound (enqueueTone f d) s"] Beep.prems
  show ?case by (simp add: onSound_def)
next
  case (WriteScore v c)
  from WriteScore.IH [of "s\<lparr>score := v\<rparr>"] WriteScore.prems show ?case by simp
next
  case (Finish win message millis c)
  show ?case
  proof (cases "systemState s = STATE_PLAYING")
    case True
    then have "systemState (finishGame win message millis s) \<noteq> STATE_PLAYING"
      by (simp add: finishGame_state)
    from runModule_state_other [OF this, of c] True Finish.prems(2)
    show ?thesis by (simp add: finishGame_state)
  next
    case False
    then have "finishGame win message millis s = s" by (simp add: finishGame_def)
    with Finish.IH [of s] Finish.prems show ?thesis by simp
  qed
qed simp_all


lemma takePressG_release: "release (buttons (snd (takePressG j s)) i) = release (buttons s i)"
  by (simp add: takePressG_snd_buttons)

lemma takePressG_noEdges: "noEdges (buttons s) \<Longrightarrow> noEdges (buttons (snd (takePressG j s)))"
  by (simp add: takePressG_def noEdges_takePress)

lemma takePressG_isDown: "isDown i (buttons (snd (takePressG j s))) = isDown i (buttons s)"
  by (simp add: isDown_def takePressG_snd_buttons)

lemma noEdges_idle: "noEdges (buttons s) \<Longrightarrow> snd (takePressG i s) = s"
  by (simp add: takePressG_idle noEdges_iff)

lemma noEdges_no_press: "noEdges (buttons s) \<Longrightarrow> \<not> fst (takePressG i s)"
  by (simp add: takePressG_fst noEdges_iff)

lemma paused_or_run_transition:
  assumes "systemState x = systemState s"
    and "systemState (if p then x else runModule c x) \<noteq> systemState s"
  shows "noEdges (buttons (if p then x else runModule c x))"
  using assms runModule_transition [of c x] by (cases p) simp_all

lemma paused_or_run_release:
  assumes "systemState x = systemState s" and "release (buttons x i)"
    and "systemState (if p then x else runModule c x) = systemState s"
  shows "release (buttons (if p then x else runModule c x) i)"
  using assms runModule_release [of x i c] by (cases p) simp_all

lemma snakeUpdate_transition:
  assumes "systemState (snakeUpdate c s) \<noteq> systemState s"
  shows "noEdges (buttons (snakeUpdate c s))"
proof -
  let ?u = "snd (takePressG B_PAUSE s)"
  let ?x = "if fst (takePressG B_PAUSE s)
      then onSound beepButton (?u\<lparr>gamePaused := \<not> gamePaused ?u\<rparr>) else ?u"
  have eq: "snakeUpdate c s = (if gamePaused ?x then ?x else runModule c ?x)"
    by (simp add: snakeUpdate_def Let_def case_prod_beta)
  have st: "systemState ?x = systemState s"
    by (simp add: takePressG_snd_fields onSound_def)
  from paused_or_run_transition [OF st, of "gamePaused ?x" c] assms
  show ?thesis unfolding eq by blast
qed

lemma snakeUpdate_release:
  assumes "release (buttons s i)" and "systemState (snakeUpdate c s) = systemState s"
  shows "release (buttons (snakeUpdate c s) i)"
proof -
  let ?u = "snd (takePressG B_PAUSE s)"
  let ?x = "if fst (takePressG B_PAUSE s)
      then onSound beepButton (?u\<lparr>gamePaused := \<not> gamePaused ?u\<rparr>) else ?u"
  have eq: "snakeUpdate c s = (if gamePaused ?x then ?x else runModule c ?x)"
    by (simp add: snakeUpdate_def Let_def case_prod_beta)
  have st: "systemState ?x = systemState s"
    by (simp add: takePressG_snd_fields onSound_def)
  have rel: "release (buttons ?x i)"
    using assms(1) by (simp add: takePressG_release onSound_def)
  from paused_or_run_release [OF st rel, of "gamePaused ?x" c] assms(2)
  show ?thesis unfolding eq by blast
qed

lemma dinoUpdate_snakeUpdate: "dinoUpdate c s = snakeUpdate c s"
  by (simp add: dinoUpdate_def snakeUpdate_def)

lemma pacEasyUpdate_transition:
  assumes "systemState (pacEasyUpdate c s) \<noteq> systemState s"
  shows "noEdges (buttons (pacEasyUpdate c s))"
proof (cases "fst (takePressG B_PAUSE s)")
  case True
  then have "systemState (pacEasyUpdate c s) = systemState s"
    by (simp add: pacEasyUpdate_def Let_def case_prod_beta takePressG_snd_fields onSound_def)
  with assms show ?thesis by simp
next
  case False
  let ?u = "snd (takePressG B_PAUSE s)"
  have eq: "pacEasyUpdate c s = (if gamePaused ?u then ?u else runModule c ?u)"
    using False by (simp add: pacEasyUpdate_def Let_def case_prod_beta)
  have st: "systemState ?u = systemState s"
    by (simp add: takePressG_snd_fields)
  from paused_or_run_transition [OF st, of "gamePaused ?u" c] assms
  show ?thesis unfolding eq by blast
qed

lemma pacEasyUpdate_release:
  assumes "release (buttons s i)" and "systemState (pacEasyUpdate c s) = systemState s"
  shows "release (buttons (pacEasyUpdate c s) i)"
proof (cases "fst (takePressG B_PAUSE s)")
  case True
  with assms(1) show ?thesis
    by (simp add: pacEasyUpdate_def Let_def case_prod_beta takePressG_release onSound_def)
next
  case False
  let ?u = "snd (takePressG B_PAUSE s)"
  have eq: "pacEasyUpdate c s = (if gamePaused ?u then ?u else runModule c ?u)"
    using False by (simp add: pacEasyUpdate_def Let_def case_prod_beta)
  have st: "systemState ?u = systemState s"
    by (simp add: takePressG_snd_fields)
  have rel: "release (buttons ?u i)"
    using assms(1) by (simp add: takePressG_release)
  from paused_or_run_release [OF st rel, of "gamePaused ?u" c] assms(2)
  show ?thesis unfolding eq by blast
qed

lemma pause_checks_alike:
  "pacmanUpdate c s = pacEasyUpdate c s" "breakoutUpdate c s = pacEasyUpdate c s"
  "pongUpdate c s = pacEasyUpdate c s"
  by (simp_all add: pacmanUpdate_def breakoutUpdate_def pongUpdate_def pacEasyUpdate_def)

lemma updateGame_cases:
  assumes "P (snakeUpdate (rest now) s)" and "P (pacEasyUpdate (rest now) s)"
    and "P (runModule (rest now) s)" and "P s"
  shows "P (updateGame g now rest s)"
  unfolding updateGame_def dinoUpdate_snakeUpdate pause_checks_alike
  using assms by simp

lemma updateGame_is:
  "updateGame g now rest s = snakeUpdate (rest now) s
   \<or> updateGame g now rest s = pacEasyUpdate (rest now) s
   \<or> updateGame g now rest s = runModule (rest now) s
   \<or> updateGame g now rest s = s"
  by (rule updateGame_cases) simp_all

lemma updateGame_transition:
  assumes "systemState (updateGame g now rest s) \<noteq> systemState s"
  shows "noEdges (buttons (updateGame g now rest s))"
  using updateGame_is [of g now rest s] assms
    snakeUpdate_transition [of "rest now" s]
    pacEasyUpdate_transition [of "rest now" s]
    runModule_transition [of "rest now" s]
  by (elim disjE) simp_all

lemma updateGame_release:
  assumes "release (buttons s i)" and "systemState (updateGame g now rest s) = systemState s"
  shows "release (buttons (updateGame g now rest s) i)"
  using updateGame_is [of g now rest s] assms
    snakeUpdate_release [of s i "rest now"]
    pacEasyUpdate_release [of s i "rest now"]
    runModule_release [of s i "rest now"]
  by (elim disjE) simp_all

lemma menuMuteCombo_fire:
  assumes "isDown B_LEFT (buttons s)" and "isDown B_RIGHT (buttons s)"
    and "\<not> menuMuteComboLatched s"
  shows "noEdges (buttons (menuMuteCombo s))"
  using assms by (simp add: menuMuteCombo_def Let_def onSound_def noEdges_clear)

lemma menuMuteCombo_idle:
  assumes "\<not> (isDown B_LEFT (buttons s) \<and> isDown B_RIGHT (buttons s)
      \<and> \<not> menuMuteComboLatched s)"
  shows "buttons (menuMuteCombo s) = buttons s"
  using assms by (auto simp: menuMuteCombo_def Let_def)

lemma menuMuteCombo_noEdges:
  assumes "noEdges (buttons s)"
  shows "noEdges (buttons (menuMuteCombo s))"
proof (cases "isDown B_LEFT (buttons s) \<and> isDown B_RIGHT (buttons s)
      \<and> \<not> menuMuteComboLatched s")
  case True
  then show ?thesis by (simp add: menuMuteCombo_fire)
next
  case False
  from menuMuteCombo_idle [OF this] assms show ?thesis by simp
qed

lemma menuNavigate_noEdges:
  assumes "noEdges (buttons s)"
  shows "menuNavigate s = s"
  using assms by (simp add: menuNavigate_quiet noEdges_iff)

lemma menuNavigate_start:
  assumes "press (buttons s B_PAUSE)"
  shows "systemState (menuNavigate s) = STATE_PLAYING" "noEdges (buttons (menuNavigate s))"
  using assms
  by (simp_all add: menuNavigate_def Let_def case_prod_beta takePressG_fst
      takePressG_snd_buttons onSound_def startGame_fields noEdges_startGame)

lemma menuNavigate_stay:
  assumes "\<not> press (buttons s B_PAUSE)"
  shows "systemState (menuNavigate s) = systemState s"
    "release (buttons (menuNavigate s) i) = release (buttons s i)"
  using assms
  by (simp_all add: menuNavigate_def Let_def case_prod_beta takePressG_fst
      takePressG_snd_buttons takePressG_snd_fields onSound_def)

lemma menuNavigate_transition:
  assumes "systemState (menuNavigate s) \<noteq> systemState s"
  shows "noEdges (buttons (menuNavigate s))"
  using assms menuNavigate_start(2) [of s] menuNavigate_stay(1) [of s] by blast

lemma menuNavigate_release:
  assumes "release (buttons s i)" and "systemState (menuNavigate s) = systemState s"
    and "systemState s = STATE_MENU"
  shows "release (buttons (menuNavigate s) i)"
proof (cases "press (buttons s B_PAUSE)")
  case True
  from menuNavigate_start(1) [OF this] assms(2,3) show ?thesis by simp
next
  case False
  from menuNavigate_stay(2) [OF this] assms(1) show ?thesis by simp
qed

lemma gameOverInput_leave:
  assumes "\<not> (now - gameOverStartTime s < GAME_OVER_DELAY_MS
      \<and> \<not> press (buttons s B_PAUSE) \<and> \<not> press (buttons s B_SELECT))"
  shows "systemState (gameOverInput now s) = STATE_MENU"
    "noEdges (buttons (gameOverInput now s))"
  using assms
  by (auto simp: gameOverInput_def Let_def case_prod_beta takePressG_fst
      takePressG_snd_buttons returnToMenu_fields noEdges_returnToMenu not_less)

lemma gameOverInput_transition:
  assumes "systemState (gameOverInput now s) \<noteq> systemState s"
  shows "noEdges (buttons (gameOverInput now s))"
proof (cases "now - gameOverStartTime s < GAME_OVER_DELAY_MS
      \<and> \<not> press (buttons s B_PAUSE) \<and> \<not> press (buttons s B_SELECT)")
  case True
  then have "gameOverInput now s = s" by (simp add: gameOverInput_wait)
  with assms show ?thesis by simp
next
  case False
  then show ?thesis by (rule gameOverInput_leave(2))
qed

lemma gameOverInput_release:
  assumes "release (buttons s i)" and "systemState (gameOverInput now s) = systemState s"
    and "systemState s \<noteq> STATE_MENU"
  shows "release (buttons (gameOverInput now s) i)"
proof (cases "now - gameOverStartTime s < GAME_OVER_DELAY_MS
      \<and> \<not> press (buttons s B_PAUSE) \<and> \<not> press (buttons s B_SELECT)")
  case True
  then have "gameOverInput now s = s" by (simp add: gameOverInput_wait)
  with assms(1) show ?thesis by simp
next
  case False
  from gameOverInput_leave(1) [OF this] assms(2,3) show ?thesis by simp
qed


lemma onSound_fields:
  "buttons (onSound f x) = buttons x" "systemState (onSound f x) = systemState x"
  "menuMuteComboLatched (onSound f x) = menuMuteComboLatched x"
  by (simp_all add: onSound_def)

lemma updateButtons_release: "release (bs i) \<Longrightarrow> release (updateButtons now raw bs i)"
  using updateButton_flags [of now "raw i" "bs i"] by (simp add: updateButtons_at)

text \<open>The branch of \<open>loop()\<close> on the session state, from a state \<open>x\<close>.\<close>

lemma dispatch_transition:
  assumes "systemState (if systemState x = STATE_MENU then menuNavigate (menuMuteCombo x)
      else if systemState x = STATE_PLAYING then updateGame (currentGame x) now rest x
      else gameOverInput now x) \<noteq> systemState x"
  shows "noEdges (buttons (if systemState x = STATE_MENU then menuNavigate (menuMuteCombo x)
      else if systemState x = STATE_PLAYING then updateGame (currentGame x) now rest x
      else gameOverInput now x))"
proof (cases "systemState x")
  case STATE_MENU
  with assms menuNavigate_transition [of "menuMuteCombo x"] show ?thesis
    by (simp add: menuMuteCombo_fields)
next
  case STATE_PLAYING
  with assms updateGame_transition [of "currentGame x" now rest x] show ?thesis by simp
next
  case STATE_GAME_OVER
  with assms gameOverInput_transition [of now x] show ?thesis by simp
qed

lemma dispatch_release:
  assumes rel: "release (buttons x i)"
    and same: "systemState (if systemState x = STATE_MENU then menuNavigate (menuMuteCombo x)
      else if systemState x = STATE_PLAYING then updateGame (currentGame x) now rest x
      else gameOverInput now x) = systemState x"
    and nomute: "\<not> (systemState x = STATE_MENU \<and> isDown B_LEFT (buttons x)
      \<and> isDown B_RIGHT (buttons x) \<and> \<not> menuMuteComboLatched x)"
  shows "release (buttons (if systemState x = STATE_MENU then menuNavigate (menuMuteCombo x)
      else if systemState x = STATE_PLAYING then updateGame (currentGame x) now rest x
      else gameOverInput now x) i)"
proof (cases "systemState x")
  case STATE_MENU
  with nomute have "buttons (menuMuteCombo x) = buttons x"
    by (intro menuMuteCombo_idle) simp
  with rel have r: "release (buttons (menuMuteCombo x) i)" by simp
  from same STATE_MENU have "systemState (menuNavigate (menuMuteCombo x)) =
      systemState (menuMuteCombo x)" "systemState (menuMuteCombo x) = STATE_MENU"
    by (simp_all add: menuMuteCombo_fields)
  from menuNavigate_release [OF r this] STATE_MENU show ?thesis by simp
next
  case STATE_PLAYING
  with same have "systemState (updateGame (currentGame x) now rest x) = systemState x"
    by simp
  from updateGame_release [OF rel this] STATE_PLAYING show ?thesis by simp
next
  case STATE_GAME_OVER
  with same have "systemState (gameOverInput now x) = systemState x"
    "systemState x \<noteq> STATE_MENU" by simp_all
  from gameOverInput_release [OF rel this] STATE_GAME_OVER show ?thesis by simp
qed

lemma dispatch_mute:
  assumes "systemState x = STATE_MENU" and "isDown B_LEFT (buttons x)"
    and "isDown B_RIGHT (buttons x)" and "\<not> menuMuteComboLatched x"
  shows "systemState (if systemState x = STATE_MENU then menuNavigate (menuMuteCombo x)
      else if systemState x = STATE_PLAYING then updateGame (currentGame x) now rest x
      else gameOverInput now x) = STATE_MENU" "noEdges (buttons (if systemState x = STATE_MENU then menuNavigate (menuMuteCombo x)
      else if systemState x = STATE_PLAYING then updateGame (currentGame x) now rest x
      else gameOverInput now x))"
proof -
  have n: "noEdges (buttons (menuMuteCombo x))"
    by (rule menuMuteCombo_fire [OF assms(2,3,4)])
  from menuNavigate_noEdges [OF n] n assms(1)
  show "systemState (if systemState x = STATE_MENU then menuNavigate (menuMuteCombo x)
      else if systemState x = STATE_PLAYING then updateGame (currentGame x) now rest x
      else gameOverInput now x) = STATE_MENU" "noEdges (buttons (if systemState x = STATE_MENU then menuNavigate (menuMuteCombo x)
      else if systemState x = STATE_PLAYING then updateGame (currentGame x) now rest x
      else gameOverInput now x))"
    by (simp_all add: menuMuteCombo_fields)
qed

lemma dispatch_cleared:
  assumes "systemState x = STATE_MENU" and "noEdges (buttons x)"
  shows "systemState (if systemState x = STATE_MENU then menuNavigate (menuMuteCombo x)
      else if systemState x = STATE_PLAYING then updateGame (currentGame x) now rest x
      else gameOverInput now x) = STATE_MENU" "noEdges (buttons (if systemState x = STATE_MENU then menuNavigate (menuMuteCombo x)
      else if systemState x = STATE_PLAYING then updateGame (currentGame x) now rest x
      else gameOverInput now x))"
proof -
  have n: "noEdges (buttons (menuMuteCombo x))"
    by (rule menuMuteCombo_noEdges [OF assms(2)])
  from menuNavigate_noEdges [OF n] n assms(1)
  show "systemState (if systemState x = STATE_MENU then menuNavigate (menuMuteCombo x)
      else if systemState x = STATE_PLAYING then updateGame (currentGame x) now rest x
      else gameOverInput now x) = STATE_MENU" "noEdges (buttons (if systemState x = STATE_MENU then menuNavigate (menuMuteCombo x)
      else if systemState x = STATE_PLAYING then updateGame (currentGame x) now rest x
      else gameOverInput now x))"
    by (simp_all add: menuMuteCombo_fields)
qed

lemma loop_transition:
  assumes "systemState (loop now raw rest s) \<noteq> systemState s"
  shows "noEdges (buttons (loop now raw rest s))"
proof -
  let ?s1 = "s\<lparr>buttons := updateButtons now raw (buttons s)\<rparr>"
  let ?s2 = "snd (takePressG B_SELECT ?s1)"
  let ?c = "fst (takePressG B_SELECT ?s1) \<and> systemState ?s2 \<noteq> STATE_MENU"
  let ?r = "returnToMenu (onSound beepButton ?s2)"
  let ?D = "\<lambda>x. (if systemState x = STATE_MENU then menuNavigate (menuMuteCombo x)
      else if systemState x = STATE_PLAYING then updateGame (currentGame x) now rest x
      else gameOverInput now x)"
  have l: "loop now raw rest s = onSound (updateSound now) (?D (if ?c then ?r else ?s2))"
    by (simp add: loop_def Let_def case_prod_beta)
  show ?thesis
  proof (cases ?c)
    case True
    then have "(if ?c then ?r else ?s2) = ?r" by (rule if_P)
    then have l': "loop now raw rest s = onSound (updateSound now) (?D ?r)"
      unfolding l by (rule arg_cong)
    have "systemState ?r = STATE_MENU" "noEdges (buttons ?r)"
      by (simp_all add: returnToMenu_fields noEdges_returnToMenu)
    from dispatch_cleared(2) [OF this] show ?thesis
      unfolding l' onSound_fields .
  next
    case False
    then have "(if ?c then ?r else ?s2) = ?s2" by (rule if_not_P)
    then have l': "loop now raw rest s = onSound (updateSound now) (?D ?s2)"
      unfolding l by (rule arg_cong)
    have st: "systemState ?s2 = systemState s"
      by (simp add: takePressG_snd_fields)
    from assms have "systemState (?D ?s2) \<noteq> systemState ?s2"
      unfolding l' onSound_fields st .
    from dispatch_transition [OF this] show ?thesis
      unfolding l' onSound_fields .
  qed
qed

lemma loop_mute_combo:
  assumes "systemState s = STATE_MENU"
    and "isDown B_LEFT (updateButtons now raw (buttons s))"
    and "isDown B_RIGHT (updateButtons now raw (buttons s))"
    and "\<not> menuMuteComboLatched s"
  shows "systemState (loop now raw rest s) = STATE_MENU"
    "noEdges (buttons (loop now raw rest s))"
proof -
  let ?s1 = "s\<lparr>buttons := updateButtons now raw (buttons s)\<rparr>"
  let ?s2 = "snd (takePressG B_SELECT ?s1)"
  let ?D = "\<lambda>x. (if systemState x = STATE_MENU then menuNavigate (menuMuteCombo x)
      else if systemState x = STATE_PLAYING then updateGame (currentGame x) now rest x
      else gameOverInput now x)"
  have l: "loop now raw rest s = onSound (updateSound now) (?D ?s2)"
    using assms(1) by (simp add: loop_def Let_def case_prod_beta takePressG_snd_fields)
  have "systemState ?s2 = STATE_MENU" "isDown B_LEFT (buttons ?s2)"
    "isDown B_RIGHT (buttons ?s2)" "\<not> menuMuteComboLatched ?s2"
    using assms by (simp_all add: takePressG_snd_fields takePressG_isDown)
  from dispatch_mute [OF this]
  show "systemState (loop now raw rest s) = STATE_MENU"
    "noEdges (buttons (loop now raw rest s))"
    unfolding l onSound_fields .
qed

lemma loop_release:
  assumes rel: "release (buttons s i)"
    and same: "systemState (loop now raw rest s) = systemState s"
    and nomute: "\<not> (systemState s = STATE_MENU
      \<and> isDown B_LEFT (updateButtons now raw (buttons s))
      \<and> isDown B_RIGHT (updateButtons now raw (buttons s)) \<and> \<not> menuMuteComboLatched s)"
  shows "release (buttons (loop now raw rest s) i)"
proof -
  let ?s1 = "s\<lparr>buttons := updateButtons now raw (buttons s)\<rparr>"
  let ?s2 = "snd (takePressG B_SELECT ?s1)"
  let ?c = "fst (takePressG B_SELECT ?s1) \<and> systemState ?s2 \<noteq> STATE_MENU"
  let ?r = "returnToMenu (onSound beepButton ?s2)"
  let ?D = "\<lambda>x. (if systemState x = STATE_MENU then menuNavigate (menuMuteCombo x)
      else if systemState x = STATE_PLAYING then updateGame (currentGame x) now rest x
      else gameOverInput now x)"
  have l: "loop now raw rest s = onSound (updateSound now) (?D (if ?c then ?r else ?s2))"
    by (simp add: loop_def Let_def case_prod_beta)
  have st: "systemState ?s2 = systemState s"
    by (simp add: takePressG_snd_fields)
  show ?thesis
  proof (cases ?c)
    case True
    then have "(if ?c then ?r else ?s2) = ?r" by (rule if_P)
    then have l': "loop now raw rest s = onSound (updateSound now) (?D ?r)"
      unfolding l by (rule arg_cong)
    have "systemState ?r = STATE_MENU" "noEdges (buttons ?r)"
      by (simp_all add: returnToMenu_fields noEdges_returnToMenu)
    from dispatch_cleared(1) [OF this] have "systemState (loop now raw rest s) = STATE_MENU"
      unfolding l' onSound_fields .
    with same True st show ?thesis by simp
  next
    case False
    then have "(if ?c then ?r else ?s2) = ?s2" by (rule if_not_P)
    then have l': "loop now raw rest s = onSound (updateSound now) (?D ?s2)"
      unfolding l by (rule arg_cong)
    have r2: "release (buttons ?s2 i)"
      using rel by (simp add: takePressG_release updateButtons_release)
    from same have s2: "systemState (?D ?s2) = systemState ?s2"
      unfolding l' onSound_fields st .
    from nomute have n2: "\<not> (systemState ?s2 = STATE_MENU \<and> isDown B_LEFT (buttons ?s2)
      \<and> isDown B_RIGHT (buttons ?s2) \<and> \<not> menuMuteComboLatched ?s2)"
      by (simp add: takePressG_snd_fields takePressG_isDown)
    from dispatch_release [OF r2 s2 n2] show ?thesis
      unfolding l' onSound_fields .
  qed
qed

lemma loop_menu_idle:
  assumes "systemState s = STATE_MENU"
    and "\<not> press (updateButtons now raw (buttons s) B_SELECT)"
    and "\<not> press (updateButtons now raw (buttons s) B_UP)"
    and "\<not> press (updateButtons now raw (buttons s) B_DOWN)"
    and "\<not> press (updateButtons now raw (buttons s) B_PAUSE)"
    and "\<not> (isDown B_LEFT (updateButtons now raw (buttons s))
      \<and> isDown B_RIGHT (updateButtons now raw (buttons s)))"
  shows "loop now raw rest s =
     onSound (updateSound now)
       (s\<lparr>buttons := updateButtons now raw (buttons s), menuMuteComboLatched := False\<rparr>)"
proof -
  let ?s1 = "s\<lparr>buttons := updateButtons now raw (buttons s)\<rparr>"
  have combo: "menuMuteCombo ?s1 = ?s1\<lparr>menuMuteComboLatched := False\<rparr>"
    using assms(6) by (auto simp: menuMuteCombo_def Let_def)
  have nav: "menuNavigate (?s1\<lparr>menuMuteComboLatched := False\<rparr>) =
      ?s1\<lparr>menuMuteComboLatched := False\<rparr>"
    using assms(3,4,5) by (simp add: menuNavigate_quiet)
  show ?thesis
    unfolding loop_def
    using assms(1,2)
    by (simp add: Let_def case_prod_beta takePressG_fst takePressG_idle combo nav)
qed

lemma loop_menu_idle_fields:
  assumes "systemState s = STATE_MENU"
    and "\<not> press (updateButtons now raw (buttons s) B_SELECT)"
    and "\<not> press (updateButtons now raw (buttons s) B_UP)"
    and "\<not> press (updateButtons now raw (buttons s) B_DOWN)"
    and "\<not> press (updateButtons now raw (buttons s) B_PAUSE)"
    and "\<not> (isDown B_LEFT (updateButtons now raw (buttons s))
      \<and> isDown B_RIGHT (updateButtons now raw (buttons s)))"
  shows "systemState (loop now raw rest s) = STATE_MENU"
    "buttons (loop now raw rest s) = updateButtons now raw (buttons s)"
    "\<not> menuMuteComboLatched (loop now raw rest s)"
  unfolding loop_menu_idle [OF assms] using assms(1) by (simp_all add: onSound_def)

lemma loop_menu_start:
  assumes "systemState s = STATE_MENU"
    and "press (updateButtons now raw (buttons s) B_PAUSE)"
    and "\<not> (isDown B_LEFT (updateButtons now raw (buttons s))
      \<and> isDown B_RIGHT (updateButtons now raw (buttons s)))"
  shows "systemState (loop now raw rest s) = STATE_PLAYING"
proof -
  let ?s1 = "s\<lparr>buttons := updateButtons now raw (buttons s)\<rparr>"
  let ?s2 = "snd (takePressG B_SELECT ?s1)"
  have l: "loop now raw rest s =
      onSound (updateSound now) (menuNavigate (menuMuteCombo ?s2))"
    using assms(1) by (simp add: loop_def Let_def case_prod_beta takePressG_snd_fields)
  have "\<not> (isDown B_LEFT (buttons ?s2) \<and> isDown B_RIGHT (buttons ?s2)
      \<and> \<not> menuMuteComboLatched ?s2)"
    using assms(3) by (auto simp: takePressG_isDown)
  from menuMuteCombo_idle [OF this] assms(2)
  have "press (buttons (menuMuteCombo ?s2) B_PAUSE)"
    by (simp add: takePressG_snd_buttons)
  from menuNavigate_start(1) [OF this] show ?thesis
    unfolding l onSound_fields .
qed


text \<open>
  C6 (amended). One \<open>updateButtons\<close> call sets at most one of the two edge flags of
  a button: the press flag only together with a stable level that became pressed, the
  release flag only together with one that became released, the other flag staying as
  it was; and it clears no flag. \<open>takePress\<close> returns the press flag and clears it,
  so a second call returns false; it leaves every release flag and the other buttons'
  press flags alone. \<open>clearButtonEdges\<close> clears both flags of every button. It runs
  in \<open>returnToMenu\<close>, in \<open>startGame\<close> and in a \<open>finishGame\<close> called in the
  Playing state, and a pass of \<open>loop()\<close> that changes the session state ends with no
  edge flag set. It also runs without any change of the session state: in the menu, a
  pass in which LEFT and RIGHT are both down after \<open>updateButtons\<close> and the mute
  combo is not latched stays in the menu and ends with no edge flag set. The release
  flag has no reader: in a pass that leaves the session state as it was and in which
  the mute combo does not fire, a release flag that was set is still set at the end.
\<close>

theorem edge_flags:
  "(press (updateButtons now raw bs i) \<and> \<not> press (bs i) \<longrightarrow>
      raw i \<and> isDown i (updateButtons now raw bs)
      \<and> release (updateButtons now raw bs i) = release (bs i))
   \<and> (release (updateButtons now raw bs i) \<and> \<not> release (bs i) \<longrightarrow>
      \<not> raw i \<and> \<not> isDown i (updateButtons now raw bs)
      \<and> press (updateButtons now raw bs i) = press (bs i))
   \<and> (press (bs i) \<longrightarrow> press (updateButtons now raw bs i))
   \<and> (release (bs i) \<longrightarrow> release (updateButtons now raw bs i))
   \<and> fst (takePress i bs) = press (bs i)
   \<and> \<not> press (snd (takePress i bs) i)
   \<and> \<not> fst (takePress i (snd (takePress i bs)))
   \<and> release (snd (takePress i bs) j) = release (bs j)
   \<and> (j \<noteq> i \<longrightarrow> press (snd (takePress i bs) j) = press (bs j))
   \<and> \<not> press (clearButtonEdges bs j) \<and> \<not> release (clearButtonEdges bs j)
   \<and> noEdges (buttons (returnToMenu s))
   \<and> noEdges (buttons (startGame g s))
   \<and> (systemState s = STATE_PLAYING \<longrightarrow>
        noEdges (buttons (finishGame win message millis s)))
   \<and> (systemState (loop now raw rest s) \<noteq> systemState s \<longrightarrow>
        noEdges (buttons (loop now raw rest s)))
   \<and> (systemState s = STATE_MENU
        \<and> isDown B_LEFT (updateButtons now raw (buttons s))
        \<and> isDown B_RIGHT (updateButtons now raw (buttons s))
        \<and> \<not> menuMuteComboLatched s \<longrightarrow>
        systemState (loop now raw rest s) = STATE_MENU
        \<and> noEdges (buttons (loop now raw rest s)))
   \<and> (release (buttons s i)
        \<and> systemState (loop now raw rest s) = systemState s
        \<and> \<not> (systemState s = STATE_MENU
             \<and> isDown B_LEFT (updateButtons now raw (buttons s))
             \<and> isDown B_RIGHT (updateButtons now raw (buttons s))
             \<and> \<not> menuMuteComboLatched s) \<longrightarrow>
        release (buttons (loop now raw rest s) i))"
proof -
  have take: "fst (takePress i bs) = press (bs i)" "\<not> press (snd (takePress i bs) i)"
    "\<not> fst (takePress i (snd (takePress i bs)))"
    "release (snd (takePress i bs) j) = release (bs j)"
    "j \<noteq> i \<longrightarrow> press (snd (takePress i bs) j) = press (bs j)"
    by (simp_all add: takePress_def)
  have clear: "\<not> press (clearButtonEdges bs j)" "\<not> release (clearButtonEdges bs j)"
    by (simp_all add: clearButtonEdges_at)
  have update:
    "(press (updateButtons now raw bs i) \<and> \<not> press (bs i) \<longrightarrow>
        raw i \<and> isDown i (updateButtons now raw bs)
        \<and> release (updateButtons now raw bs i) = release (bs i))
     \<and> (release (updateButtons now raw bs i) \<and> \<not> release (bs i) \<longrightarrow>
        \<not> raw i \<and> \<not> isDown i (updateButtons now raw bs)
        \<and> press (updateButtons now raw bs i) = press (bs i))
     \<and> (press (bs i) \<longrightarrow> press (updateButtons now raw bs i))
     \<and> (release (bs i) \<longrightarrow> release (updateButtons now raw bs i))"
    using updateButton_flags [of now "raw i" "bs i"]
    unfolding updateButtons_at isDown_def by blast
  have calls: "noEdges (buttons (returnToMenu s))" "noEdges (buttons (startGame g s))"
    "systemState s = STATE_PLAYING \<longrightarrow> noEdges (buttons (finishGame win message millis s))"
    by (simp_all add: noEdges_returnToMenu noEdges_startGame noEdges_finishGame)
  have transition: "systemState (loop now raw rest s) \<noteq> systemState s \<longrightarrow>
      noEdges (buttons (loop now raw rest s))"
    using loop_transition [of now raw rest s] by blast
  have mute: "systemState s = STATE_MENU
      \<and> isDown B_LEFT (updateButtons now raw (buttons s))
      \<and> isDown B_RIGHT (updateButtons now raw (buttons s))
      \<and> \<not> menuMuteComboLatched s \<longrightarrow>
      systemState (loop now raw rest s) = STATE_MENU
      \<and> noEdges (buttons (loop now raw rest s))"
    using loop_mute_combo [of s now raw rest] by blast
  have keep: "release (buttons s i)
      \<and> systemState (loop now raw rest s) = systemState s
      \<and> \<not> (systemState s = STATE_MENU
           \<and> isDown B_LEFT (updateButtons now raw (buttons s))
           \<and> isDown B_RIGHT (updateButtons now raw (buttons s))
           \<and> \<not> menuMuteComboLatched s) \<longrightarrow>
      release (buttons (loop now raw rest s) i)"
    using loop_release [of s i now raw rest] by blast
  show ?thesis
    using update take clear calls transition mute keep by (intro conjI) blast+
qed

text \<open>
  Both edge flags of one button set at once, against the plain reading of C6: from boot,
  in the menu, LEFT is pressed and held past the debounce window and then released and
  left up past the window. The menu never takes the press of LEFT, so the press flag is
  still set when the release flag is set.
\<close>

theorem both_flags_counterexample:
  "press (buttons (loops
      [(100, leftDown, idleGame), (130, leftDown, idleGame),
       (200, noneDown, idleGame), (230, noneDown, idleGame)]
      (bootGlobals 0 (noneDown))) B_LEFT)
   \<and> release (buttons (loops
      [(100, leftDown, idleGame), (130, leftDown, idleGame),
       (200, noneDown, idleGame), (230, noneDown, idleGame)]
      (bootGlobals 0 (noneDown))) B_LEFT)"
proof -
  define quiet where "quiet s b \<longleftrightarrow> systemState s = STATE_MENU \<and> buttons s B_LEFT = b
      \<and> (\<forall>i. i \<noteq> B_LEFT \<longrightarrow>
            \<not> stable (buttons s i) \<and> \<not> lastRaw (buttons s i) \<and> \<not> press (buttons s i))"
    for s :: Globals and b :: Button
  have step: "quiet (loop now raw (idleGame) s) (updateButton now (raw B_LEFT) b)"
    if "quiet s b" and "\<And>i. i \<noteq> B_LEFT \<Longrightarrow> \<not> raw i" for s b now raw rest
  proof -
    have "loop now raw (idleGame) s =
      onSound (updateSound now)
       (s\<lparr>buttons := (buttons s)(B_LEFT := updateButton now (raw B_LEFT) (buttons s B_LEFT)),
          menuMuteComboLatched := False\<rparr>)"
      using that by (intro loop_menu_quiet) (simp_all add: quiet_def)
    with that(1) show ?thesis by (simp add: quiet_def onSound_def)
  qed
  let ?b0 = "\<lparr>stable = False, lastRaw = False, press = False, release = False, changedAt = 0\<rparr>"
  have 0: "quiet (bootGlobals 0 (noneDown)) ?b0"
    by (simp add: quiet_def bootGlobals_def initButtons_def noneDown_def)
  note 1 = step [OF 0, of "leftDown" 100]
  note 2 = step [OF 1, of "leftDown" 130]
  note 3 = step [OF 2, of "noneDown" 200]
  note 4 = step [OF 3, of "noneDown" 230]
  from 4 have "buttons (loops
      [(100, leftDown, idleGame), (130, leftDown, idleGame),
       (200, noneDown, idleGame), (230, noneDown, idleGame)]
      (bootGlobals 0 (noneDown))) B_LEFT
     = updateButton 230 False (updateButton 200 False (updateButton 130 True
         (updateButton 100 True ?b0)))"
    by (simp add: quiet_def leftDown_def noneDown_def)
  then show ?thesis
    by (simp add: updateButton_def BTN_DEBOUNCE_MS_def)
qed

theorem edge_flags_witness:
  "\<not> press (updateButtons 100 leftDown (initButtons 0 noneDown) B_LEFT)
   \<and> press (updateButtons 130 leftDown
       (updateButtons 100 leftDown (initButtons 0 noneDown)) B_LEFT)
   \<and> isDown B_LEFT (updateButtons 130 leftDown
       (updateButtons 100 leftDown (initButtons 0 noneDown)))
   \<and> \<not> release (updateButtons 130 leftDown
       (updateButtons 100 leftDown (initButtons 0 noneDown)) B_LEFT)
   \<and> systemState (loop 100 bothDown idleGame (bootGlobals 0 noneDown)) = STATE_MENU
   \<and> \<not> menuMuteComboLatched (loop 100 bothDown idleGame (bootGlobals 0 noneDown))
   \<and> press (updateButtons 130 bothDown
       (buttons (loop 100 bothDown idleGame (bootGlobals 0 noneDown))) B_LEFT)
   \<and> isDown B_LEFT (updateButtons 130 bothDown
       (buttons (loop 100 bothDown idleGame (bootGlobals 0 noneDown))))
   \<and> isDown B_RIGHT (updateButtons 130 bothDown
       (buttons (loop 100 bothDown idleGame (bootGlobals 0 noneDown))))
   \<and> systemState (loop 130 bothDown idleGame
       (loop 100 bothDown idleGame (bootGlobals 0 noneDown))) = STATE_MENU
   \<and> noEdges (buttons (loop 130 bothDown idleGame
       (loop 100 bothDown idleGame (bootGlobals 0 noneDown))))
   \<and> systemState (loop 100 pauseDown idleGame (bootGlobals 0 noneDown)) = STATE_MENU
   \<and> press (updateButtons 130 pauseDown
       (buttons (loop 100 pauseDown idleGame (bootGlobals 0 noneDown))) B_PAUSE)
   \<and> systemState (loop 130 pauseDown idleGame
       (loop 100 pauseDown idleGame (bootGlobals 0 noneDown))) = STATE_PLAYING
   \<and> noEdges (buttons (loop 130 pauseDown idleGame
       (loop 100 pauseDown idleGame (bootGlobals 0 noneDown))))
   \<and> systemState (startGame GAME_TETRIS (bootGlobals 0 noneDown)) = STATE_PLAYING
   \<and> noEdges (buttons (finishGame False (Some ''Stacked out'') 5000
       (startGame GAME_TETRIS (bootGlobals 0 noneDown))))
   \<and> systemState (loop 130 noneDown idleGame
       (loop 100 noneDown idleGame (bootGlobals 0 leftDown))) = STATE_MENU
   \<and> release (buttons (loop 130 noneDown idleGame
       (loop 100 noneDown idleGame (bootGlobals 0 leftDown))) B_LEFT)
   \<and> \<not> isDown B_RIGHT (updateButtons 160 noneDown (buttons (loop 130 noneDown idleGame
       (loop 100 noneDown idleGame (bootGlobals 0 leftDown)))))
   \<and> systemState (loop 160 noneDown idleGame (loop 130 noneDown idleGame
       (loop 100 noneDown idleGame (bootGlobals 0 leftDown)))) = STATE_MENU
   \<and> release (buttons (loop 160 noneDown idleGame (loop 130 noneDown idleGame
       (loop 100 noneDown idleGame (bootGlobals 0 leftDown)))) B_LEFT)"
proof -
  note ev = updateButtons_at updateButton_def initButtons_def isDown_def leftDown_def
    noneDown_def bothDown_def pauseDown_def BTN_DEBOUNCE_MS_def
  let ?b0 = "initButtons 0 noneDown"
  let ?boot = "bootGlobals 0 noneDown"
  have boot: "systemState (bootGlobals 0 pressed) = STATE_MENU"
    "buttons (bootGlobals 0 pressed) = initButtons 0 pressed" for pressed
    by (simp_all add: bootGlobals_def)

  let ?b1 = "updateButtons 100 leftDown ?b0"
  have q: "\<not> press (?b1 B_LEFT)" and r: "\<not> release (?b1 B_LEFT)"
    by (simp_all add: ev)
  have p: "press (updateButtons 130 leftDown ?b1 B_LEFT)"
    by (simp add: ev)
  from p q r edge_flags [of 130 leftDown ?b1 B_LEFT B_LEFT ?boot GAME_TETRIS False None 0
      idleGame]
  have w1: "isDown B_LEFT (updateButtons 130 leftDown ?b1)"
    "\<not> release (updateButtons 130 leftDown ?b1 B_LEFT)"
    by blast+

  let ?m1 = "loop 100 bothDown idleGame ?boot"
  have "systemState ?m1 = STATE_MENU"
    "buttons ?m1 = updateButtons 100 bothDown (buttons ?boot)"
    "\<not> menuMuteComboLatched ?m1"
    by (rule loop_menu_idle_fields; simp add: boot ev)+
  then have m1: "systemState ?m1 = STATE_MENU"
    "buttons ?m1 = updateButtons 100 bothDown ?b0"
    "\<not> menuMuteComboLatched ?m1"
    by (simp_all add: boot)
  have mp: "press (updateButtons 130 bothDown (buttons ?m1) B_LEFT)"
    and ml: "isDown B_LEFT (updateButtons 130 bothDown (buttons ?m1))"
    and mr: "isDown B_RIGHT (updateButtons 130 bothDown (buttons ?m1))"
    unfolding m1(2) by (simp_all add: ev)
  from m1(1,3) ml mr edge_flags [of 130 bothDown ?b0 B_LEFT B_LEFT ?m1 GAME_TETRIS False None 0
      idleGame]
  have w2: "systemState (loop 130 bothDown idleGame ?m1) = STATE_MENU"
    "noEdges (buttons (loop 130 bothDown idleGame ?m1))"
    by blast+

  let ?p1 = "loop 100 pauseDown idleGame ?boot"
  have "systemState ?p1 = STATE_MENU"
    "buttons ?p1 = updateButtons 100 pauseDown (buttons ?boot)"
    by (rule loop_menu_idle_fields; simp add: boot ev)+
  then have p1: "systemState ?p1 = STATE_MENU"
    "buttons ?p1 = updateButtons 100 pauseDown ?b0"
    by (simp_all add: boot)
  have pp: "press (updateButtons 130 pauseDown (buttons ?p1) B_PAUSE)"
    and pn: "\<not> (isDown B_LEFT (updateButtons 130 pauseDown (buttons ?p1))
      \<and> isDown B_RIGHT (updateButtons 130 pauseDown (buttons ?p1)))"
    unfolding p1(2) by (simp_all add: ev)
  have p2: "systemState (loop 130 pauseDown idleGame ?p1) = STATE_PLAYING"
    by (rule loop_menu_start [OF p1(1) pp pn])
  from p1(1) p2 edge_flags [of 130 pauseDown ?b0 B_LEFT B_LEFT ?p1 GAME_TETRIS False None 0
      idleGame]
  have w3: "noEdges (buttons (loop 130 pauseDown idleGame ?p1))"
    by simp

  let ?g = "startGame GAME_TETRIS ?boot"
  have g: "systemState ?g = STATE_PLAYING"
    by (simp add: startGame_fields)
  from g edge_flags [of 130 leftDown ?b0 B_LEFT B_LEFT ?g GAME_TETRIS False
      "Some ''Stacked out''" 5000 idleGame]
  have w4: "noEdges (buttons (finishGame False (Some ''Stacked out'') 5000 ?g))"
    by blast

  let ?r1 = "loop 100 noneDown idleGame (bootGlobals 0 leftDown)"
  have "systemState ?r1 = STATE_MENU"
    "buttons ?r1 = updateButtons 100 noneDown (buttons (bootGlobals 0 leftDown))"
    by (rule loop_menu_idle_fields; simp add: boot ev)+
  then have r1: "systemState ?r1 = STATE_MENU"
    "buttons ?r1 = updateButtons 100 noneDown (initButtons 0 leftDown)"
    by (simp_all add: boot)
  let ?r2 = "loop 130 noneDown idleGame ?r1"
  have r2: "systemState ?r2 = STATE_MENU"
    "buttons ?r2 = updateButtons 130 noneDown (buttons ?r1)"
    by (rule loop_menu_idle_fields; simp add: r1 ev)+
  have rr: "release (buttons ?r2 B_LEFT)"
    and rn: "\<not> isDown B_RIGHT (updateButtons 160 noneDown (buttons ?r2))"
    unfolding r2(2) r1(2) by (simp_all add: ev)
  have r3: "systemState (loop 160 noneDown idleGame ?r2) = STATE_MENU"
    by (rule loop_menu_idle_fields; simp add: r2 r1 ev)
  from r2(1) r3 rr rn edge_flags [of 160 noneDown ?b0 B_LEFT B_LEFT ?r2 GAME_TETRIS False None 0
      idleGame]
  have w5: "release (buttons (loop 160 noneDown idleGame ?r2) B_LEFT)"
    by simp

  from q p w1 m1(1,3) mp ml mr w2 p1(1) pp p2 w3 g w4 r2(1) rr rn r3 w5
  show ?thesis by (intro conjI)
qed

lemma updateGame_paused_idle:
  assumes "g \<in> {GAME_SNAKE_WALL, GAME_SNAKE_WRAP, GAME_PACMAN_EASY, GAME_PACMAN_HARD,
      GAME_BREAKOUT, GAME_PONG, GAME_DINO}"
    and "gamePaused s" and "\<not> press (buttons s B_PAUSE)"
  shows "updateGame g now rest s = s"
  using assms(1) paused_idle [OF assms(2,3)]
  by (auto simp: updateGame_def game_ids)

lemma updateGame_pause_set:
  assumes "g \<in> {GAME_SNAKE_WALL, GAME_SNAKE_WRAP, GAME_PACMAN_EASY, GAME_PACMAN_HARD,
      GAME_BREAKOUT, GAME_PONG, GAME_DINO}"
    and "\<not> gamePaused s" and "press (buttons s B_PAUSE)"
  shows "updateGame g now rest s =
     onSound beepButton ((snd (takePressG B_PAUSE s))\<lparr>gamePaused := True\<rparr>)"
  using assms(1,2) pause_set [OF assms(3,2)] pause_pressed [OF assms(3)]
  by (auto simp: updateGame_def game_ids)

lemma updateGame_pause_clear:
  assumes "g \<in> {GAME_PACMAN_EASY, GAME_PACMAN_HARD, GAME_BREAKOUT, GAME_PONG}"
    and "gamePaused s" and "press (buttons s B_PAUSE)"
  shows "updateGame g now rest s =
     onSound beepButton ((snd (takePressG B_PAUSE s))\<lparr>gamePaused := False\<rparr>)"
  using assms(1,2) pause_pressed [OF assms(3)]
  by (auto simp: updateGame_def game_ids)

lemma updateGame_no_pause:
  assumes "g \<in> {GAME_TETRIS, GAME_FLAPPY_EASY, GAME_FLAPPY_HARD, GAME_ASTEROIDS_HARD,
      GAME_SPACE_SHOOTER, GAME_TTT_AI, GAME_TTT_2P, GAME_TUG, GAME_CHECKERS_AI,
      GAME_CHECKERS_2P, GAME_MINESWEEPER}"
  shows "updateGame g now rest s = runModule (rest now) s"
  using assms by (auto simp: updateGame_def game_ids)


text \<open>
  C2 (amended). Pausing lives in the games, not in \<open>loop()\<close>: in the Playing state
  (and with no SELECT press) a pass runs \<open>updateGame\<close> for the current game and then
  \<open>updateSound\<close>, whatever the pause flag is. The update functions of Snake, Pac-Man
  (easy and hard), Breakout, Pong and Dino open with a pause check: with the flag set
  and no PAUSE press the update returns the globals unchanged, and a PAUSE press while
  the flag is clear takes the press, sets the flag and beeps, with none of the game's
  own code run in that pass; in Pac-Man, Breakout and Pong a PAUSE press while the flag
  is set takes the press, clears the flag and beeps, again with none of the game's own
  code run. The update functions of the other games have no pause check: they run
  their code in every pass, and the flag keeps its value.
\<close>

theorem pause_in_modules:
  "(systemState s = STATE_PLAYING \<and> \<not> press (updateButtons now raw (buttons s) B_SELECT) \<longrightarrow>
      loop now raw rest s =
        onSound (updateSound now)
          (updateGame (currentGame s) now rest
            (s\<lparr>buttons := updateButtons now raw (buttons s)\<rparr>)))
   \<and> (g \<in> {GAME_SNAKE_WALL, GAME_SNAKE_WRAP, GAME_PACMAN_EASY, GAME_PACMAN_HARD,
            GAME_BREAKOUT, GAME_PONG, GAME_DINO} \<longrightarrow>
        (gamePaused s \<and> \<not> press (buttons s B_PAUSE) \<longrightarrow> updateGame g now rest s = s)
        \<and> (\<not> gamePaused s \<and> press (buttons s B_PAUSE) \<longrightarrow>
             updateGame g now rest s =
               onSound beepButton ((snd (takePressG B_PAUSE s))\<lparr>gamePaused := True\<rparr>)))
   \<and> (g \<in> {GAME_PACMAN_EASY, GAME_PACMAN_HARD, GAME_BREAKOUT, GAME_PONG}
          \<and> gamePaused s \<and> press (buttons s B_PAUSE) \<longrightarrow>
        updateGame g now rest s =
          onSound beepButton ((snd (takePressG B_PAUSE s))\<lparr>gamePaused := False\<rparr>))
   \<and> (g \<in> {GAME_TETRIS, GAME_FLAPPY_EASY, GAME_FLAPPY_HARD, GAME_ASTEROIDS_HARD,
            GAME_SPACE_SHOOTER, GAME_TTT_AI, GAME_TTT_2P, GAME_TUG, GAME_CHECKERS_AI,
            GAME_CHECKERS_2P, GAME_MINESWEEPER} \<longrightarrow>
        updateGame g now rest s = runModule (rest now) s
        \<and> gamePaused (updateGame g now rest s) = gamePaused s)"
proof -
  have 1: "loop now raw rest s =
        onSound (updateSound now)
          (updateGame (currentGame s) now rest
            (s\<lparr>buttons := updateButtons now raw (buttons s)\<rparr>))"
    if "systemState s = STATE_PLAYING" "\<not> press (updateButtons now raw (buttons s) B_SELECT)"
    by (rule loop_playing [OF that])
  have 4: "updateGame g now rest s = runModule (rest now) s
        \<and> gamePaused (updateGame g now rest s) = gamePaused s"
    if "g \<in> {GAME_TETRIS, GAME_FLAPPY_EASY, GAME_FLAPPY_HARD, GAME_ASTEROIDS_HARD,
            GAME_SPACE_SHOOTER, GAME_TTT_AI, GAME_TTT_2P, GAME_TUG, GAME_CHECKERS_AI,
            GAME_CHECKERS_2P, GAME_MINESWEEPER}"
    by (simp add: updateGame_no_pause [OF that] runModule_gamePaused)
  from 1 updateGame_paused_idle [of g s now rest] updateGame_pause_set [of g s now rest]
    updateGame_pause_clear [of g s now rest] 4
  show ?thesis by blast
qed

theorem pause_in_modules_witness:
  "GAME_PACMAN_HARD \<in> {GAME_SNAKE_WALL, GAME_SNAKE_WRAP, GAME_PACMAN_EASY, GAME_PACMAN_HARD,
      GAME_BREAKOUT, GAME_PONG, GAME_DINO}
   \<and> gamePaused ((startGame GAME_PACMAN_HARD (bootGlobals 0 noneDown))\<lparr>gamePaused := True\<rparr>)
   \<and> \<not> press (buttons ((startGame GAME_PACMAN_HARD (bootGlobals 0 noneDown))
        \<lparr>gamePaused := True\<rparr>) B_PAUSE)
   \<and> updateGame GAME_PACMAN_HARD 500 flappyEasyFlap
        ((startGame GAME_PACMAN_HARD (bootGlobals 0 noneDown))\<lparr>gamePaused := True\<rparr>)
       = (startGame GAME_PACMAN_HARD (bootGlobals 0 noneDown))\<lparr>gamePaused := True\<rparr>"
proof -
  let ?s = "(startGame GAME_PACMAN_HARD (bootGlobals 0 noneDown))\<lparr>gamePaused := True\<rparr>"
  have g: "GAME_PACMAN_HARD \<in> {GAME_SNAKE_WALL, GAME_SNAKE_WRAP, GAME_PACMAN_EASY,
      GAME_PACMAN_HARD, GAME_BREAKOUT, GAME_PONG, GAME_DINO}"
    by simp
  have p: "gamePaused ?s" by simp
  have n: "\<not> press (buttons ?s B_PAUSE)" by (simp add: startGame_buttons)
  from g p n pause_in_modules [of ?s 500 noneDown flappyEasyFlap GAME_PACMAN_HARD]
  show ?thesis by blast
qed

lemma flappy_pass_no_press:
  assumes "\<not> press (buttons s B_UP)" "\<not> press (buttons s B_PAUSE)"
  shows "runModule (flappyEasyFlap now) s = s"
  using assms by (simp add: flappyEasyFlap_def takePressG_fst takePressG_idle)

lemma flappy_pass_pause:
  assumes "\<not> press (buttons s B_UP)" "press (buttons s B_PAUSE)"
  shows "runModule (flappyEasyFlap now) s =
     onSound (enqueueTone 1200 26) (snd (takePressG B_PAUSE s))"
  using assms by (simp add: flappyEasyFlap_def takePressG_fst takePressG_idle)


text \<open>
  Against the plain reading of C2: Flappy Bird (easy) is running, PAUSE goes down and
  is held past the debounce window. In the pass that sees the press edge the pause flag
  stays clear and the game's update has run: it took the press and queued its beep.
\<close>

theorem pause_input_counterexample:
  "systemState (loop 1000 pauseDown flappyEasyFlap
       (startGame GAME_FLAPPY_EASY (bootGlobals 0 noneDown))) = STATE_PLAYING
   \<and> press (updateButtons 1030 pauseDown (buttons (loop 1000 pauseDown flappyEasyFlap
       (startGame GAME_FLAPPY_EASY (bootGlobals 0 noneDown)))) B_PAUSE)
   \<and> \<not> gamePaused (loop 1030 pauseDown flappyEasyFlap (loop 1000 pauseDown flappyEasyFlap
       (startGame GAME_FLAPPY_EASY (bootGlobals 0 noneDown))))
   \<and> \<not> press (buttons (loop 1030 pauseDown flappyEasyFlap (loop 1000 pauseDown flappyEasyFlap
       (startGame GAME_FLAPPY_EASY (bootGlobals 0 noneDown)))) B_PAUSE)
   \<and> toneTail (sound (loop 1030 pauseDown flappyEasyFlap (loop 1000 pauseDown flappyEasyFlap
       (startGame GAME_FLAPPY_EASY (bootGlobals 0 noneDown)))))
     \<noteq> toneTail (sound (loop 1000 pauseDown flappyEasyFlap
       (startGame GAME_FLAPPY_EASY (bootGlobals 0 noneDown))))"
proof -
  let ?p = "startGame GAME_FLAPPY_EASY (bootGlobals 0 noneDown)"
  let ?b1 = "updateButtons 1000 pauseDown (buttons ?p)"
  let ?s1 = "loop 1000 pauseDown flappyEasyFlap ?p"
  let ?b2 = "updateButtons 1030 pauseDown (buttons ?s1)"
  let ?s2 = "loop 1030 pauseDown flappyEasyFlap ?s1"
  have p: "systemState ?p = STATE_PLAYING" "currentGame ?p = GAME_FLAPPY_EASY"
    "\<not> gamePaused ?p" "sound ?p = beepStart bootSound"
    by (simp_all add: startGame_def Let_def onSound_def initGame_def game_ids bootGlobals_def)
  have bp: "buttons ?p i = \<lparr>stable = False, lastRaw = False, press = False, release = False,
      changedAt = 0\<rparr>" for i
    by (simp add: startGame_buttons bootGlobals_def initButtons_def noneDown_def)
  have b1: "?b1 i = (if i = B_PAUSE
      then \<lparr>stable = False, lastRaw = True, press = False, release = False, changedAt = 1000\<rparr>
      else \<lparr>stable = False, lastRaw = False, press = False, release = False, changedAt = 0\<rparr>)"
    for i
    by (simp add: updateButtons_at updateButton_def bp pauseDown_def BTN_DEBOUNCE_MS_def)
  have s1: "?s1 = onSound (updateSound 1000) (?p\<lparr>buttons := ?b1\<rparr>)"
  proof -
    have "?s1 = onSound (updateSound 1000)
        (updateGame (currentGame ?p) 1000 flappyEasyFlap (?p\<lparr>buttons := ?b1\<rparr>))"
      by (rule loop_playing) (simp_all add: p b1)
    also have "updateGame (currentGame ?p) 1000 flappyEasyFlap (?p\<lparr>buttons := ?b1\<rparr>)
        = runModule (flappyEasyFlap 1000) (?p\<lparr>buttons := ?b1\<rparr>)"
      unfolding p(2) by (rule updateGame_no_pause) simp
    also have "\<dots> = ?p\<lparr>buttons := ?b1\<rparr>"
      by (rule flappy_pass_no_press) (simp_all add: b1)
    finally show ?thesis .
  qed
  have s1f: "systemState ?s1 = STATE_PLAYING" "currentGame ?s1 = GAME_FLAPPY_EASY"
    "\<not> gamePaused ?s1" "sound ?s1 = updateSound 1000 (beepStart bootSound)"
    "buttons ?s1 = ?b1"
    by (simp_all add: s1 onSound_def p)
  have b2: "?b2 i = (if i = B_PAUSE
      then \<lparr>stable = True, lastRaw = True, press = True, release = False, changedAt = 1000\<rparr>
      else \<lparr>stable = False, lastRaw = False, press = False, release = False, changedAt = 0\<rparr>)"
    for i
    unfolding s1f(5)
    by (simp add: updateButtons_at [of 1030] updateButton_def b1 pauseDown_def BTN_DEBOUNCE_MS_def)
  have s2: "?s2 = onSound (updateSound 1030)
      (onSound (enqueueTone 1200 26) (snd (takePressG B_PAUSE (?s1\<lparr>buttons := ?b2\<rparr>))))"
  proof -
    have "?s2 = onSound (updateSound 1030)
        (updateGame (currentGame ?s1) 1030 flappyEasyFlap (?s1\<lparr>buttons := ?b2\<rparr>))"
      by (rule loop_playing) (simp_all add: s1f(1) b2)
    also have "updateGame (currentGame ?s1) 1030 flappyEasyFlap (?s1\<lparr>buttons := ?b2\<rparr>)
        = runModule (flappyEasyFlap 1030) (?s1\<lparr>buttons := ?b2\<rparr>)"
      unfolding s1f(2) by (rule updateGame_no_pause) simp
    also have "\<dots> = onSound (enqueueTone 1200 26) (snd (takePressG B_PAUSE (?s1\<lparr>buttons := ?b2\<rparr>)))"
      by (rule flappy_pass_pause) (simp_all add: b2)
    finally show ?thesis .
  qed
  have paused: "\<not> gamePaused ?s2"
    by (simp add: s2 onSound_def takePressG_snd_fields s1f)
  have taken: "\<not> press (buttons ?s2 B_PAUSE)"
    by (simp add: s2 onSound_def takePressG_snd_buttons)
  have snd2: "sound ?s2 = updateSound 1030 (enqueueTone 1200 26 (updateSound 1000 (beepStart bootSound)))"
    by (simp add: s2 onSound_def takePressG_snd_fields s1f)
  have t1: "toneTail (updateSound 1000 (beepStart bootSound)) = 3" by code_simp
  have t2: "toneTail (updateSound 1030 (enqueueTone 1200 26 (updateSound 1000 (beepStart bootSound))))
      = 4"
    by code_simp
  have tail: "toneTail (sound ?s2) \<noteq> toneTail (sound ?s1)"
    by (simp add: snd2 s1f(4) t1 t2)
  have arrives: "press (?b2 B_PAUSE)" by (simp add: b2)
  from s1f(1) arrives paused taken tail show ?thesis by (intro conjI)
qed


end
